theory Spec2Isabelle
  imports Main "HOL-Library.Word" "HOL-Library.Sublist"
begin

section \<open>JavaScript strings\<close>

text \<open>
  A JavaScript string is a sequence of 16-bit UTF-16 code units. \<open>js\<close> embeds an
  Isabelle string literal (8-bit characters) as the code units of the same values.
\<close>

type_synonym code_unit = "16 word"
type_synonym jsstring = "code_unit list"

definition js :: "string \<Rightarrow> jsstring" where
  "js s = map (\<lambda>c. word_of_nat (of_char c)) s"

text \<open>
  \<^verbatim>\<open>String.prototype.trim\<close> strips the code points of WhiteSpace and LineTerminator
  (ECMA-262) from both ends: TAB, LF, VT, FF, CR, SPACE, NBSP, U+1680, U+2000..U+200A,
  U+2028, U+2029, U+202F, U+205F, U+3000 and U+FEFF. All of them are single code units.
\<close>

definition is_js_whitespace :: "code_unit \<Rightarrow> bool" where
  "is_js_whitespace c \<longleftrightarrow>
     c = 0x0009 \<or> c = 0x000A \<or> c = 0x000B \<or> c = 0x000C \<or> c = 0x000D \<or> c = 0x0020 \<or>
     c = 0x00A0 \<or> c = 0x1680 \<or> (0x2000 \<le> c \<and> c \<le> 0x200A) \<or> c = 0x2028 \<or>
     c = 0x2029 \<or> c = 0x202F \<or> c = 0x205F \<or> c = 0x3000 \<or> c = 0xFEFF"

definition trim :: "jsstring \<Rightarrow> jsstring" where
  "trim s = rev (dropWhile is_js_whitespace (rev (dropWhile is_js_whitespace s)))"

text \<open>
  \<^verbatim>\<open>Date.now().toString()\<close>: \<^verbatim>\<open>Date.now()\<close> is an integral number of milliseconds (a
  time value, of magnitude below \<open>10^21\<close>), which \<^verbatim>\<open>Number.prototype.toString\<close> prints
  in plain decimal, with a leading minus sign for a clock set before 1970.
\<close>

definition digit_unit :: "nat \<Rightarrow> code_unit" where
  "digit_unit d = 0x0030 + word_of_nat d"

fun nat_digits :: "nat \<Rightarrow> jsstring" where
  "nat_digits n = (if n < 10 then [digit_unit n] else nat_digits (n div 10) @ [digit_unit (n mod 10)])"

declare nat_digits.simps [simp del]

definition Number_toString :: "int \<Rightarrow> jsstring" where
  "Number_toString n = (if n < 0 then 0x002D # nat_digits (nat (- n)) else nat_digits (nat n))"

text \<open>Reading a decimal numeral back, used to show that distinct numbers print differently.\<close>

definition digit_value :: "code_unit \<Rightarrow> nat" where
  "digit_value c = unat (c - 0x0030)"

definition decimal_value :: "jsstring \<Rightarrow> nat" where
  "decimal_value s = foldl (\<lambda>acc c. 10 * acc + digit_value c) 0 s"

section \<open>The task list and the component state\<close>

text \<open>
  \<^verbatim>\<open>interface Task { id: string; text: string; completed: boolean }\<close>; the fields
  \<^verbatim>\<open>id\<close> and \<^verbatim>\<open>text\<close> are \<open>id_field\<close> and \<open>text_field\<close> here (\<open>id\<close> is the identity function
  of HOL and \<open>text\<close> a keyword).
\<close>

record Task =
  id_field :: jsstring
  text_field :: jsstring
  completed :: bool

text \<open>
  The three \<^verbatim>\<open>useState\<close> cells of \<^verbatim>\<open>App\<close>: the input field \<^verbatim>\<open>task\<close>, the list
  \<^verbatim>\<open>tasks\<close> and the edit target \<^verbatim>\<open>taskBeingEdited\<close> (\<^verbatim>\<open>string | null\<close>). A handler
  reads the cells of the latest render and returns the cells after its \<^verbatim>\<open>set...\<close>
  calls. Each handler that changes the list also hands the new list to \<^verbatim>\<open>saveTasks\<close>;
  that call is not awaited and its failure is caught, so it has no effect on the
  cells, and it is modelled on its own below.
\<close>

record app_state =
  task :: jsstring
  tasks :: "Task list"
  taskBeingEdited :: "jsstring option"

definition initial_state :: app_state where
  "initial_state = \<lparr>task = [], tasks = [], taskBeingEdited = None\<rparr>"

text \<open>
  JavaScript truthiness of a \<^verbatim>\<open>string | null\<close>: \<^verbatim>\<open>null\<close> and the empty string are
  falsy. \<open>edit_target\<close> is the id an \<^verbatim>\<open>if (taskBeingEdited)\<close> sees, if any.
\<close>

definition edit_target :: "app_state \<Rightarrow> jsstring option" where
  "edit_target s = (case taskBeingEdited s of None \<Rightarrow> None
                    | Some e \<Rightarrow> if e = [] then None else Some e)"

text \<open>\<^verbatim>\<open>onChangeText={(text) => setTask(text)}\<close>\<close>

definition setTask :: "jsstring \<Rightarrow> app_state \<Rightarrow> app_state" where
  "setTask txt s = s\<lparr>task := txt\<rparr>"

text \<open>\<^verbatim>\<open>addOrUpdateTask\<close>; the first argument is the value \<^verbatim>\<open>Date.now()\<close> returns.\<close>

definition addOrUpdateTask :: "int \<Rightarrow> app_state \<Rightarrow> app_state" where
  "addOrUpdateTask now s =
     (if trim (task s) \<noteq> [] then
        (case edit_target s of
           Some e \<Rightarrow>
             s\<lparr>tasks := map (\<lambda>item. if id_field item = e then item\<lparr>text_field := task s\<rparr> else item) (tasks s),
               task := [],
               taskBeingEdited := None\<rparr>
         | None \<Rightarrow>
             s\<lparr>tasks := tasks s @ [\<lparr>id_field = Number_toString now, text_field = task s, completed = False\<rparr>],
               task := []\<rparr>)
      else s)"

text \<open>\<^verbatim>\<open>deleteTask\<close>\<close>

definition deleteTask :: "jsstring \<Rightarrow> app_state \<Rightarrow> app_state" where
  "deleteTask taskId s = s\<lparr>tasks := filter (\<lambda>item. id_field item \<noteq> taskId) (tasks s)\<rparr>"

text \<open>\<^verbatim>\<open>toggleTaskCompletion\<close>\<close>

definition toggleTaskCompletion :: "jsstring \<Rightarrow> app_state \<Rightarrow> app_state" where
  "toggleTaskCompletion taskId s =
     s\<lparr>tasks := map (\<lambda>item. if id_field item = taskId then item\<lparr>completed := \<not> completed item\<rparr> else item)
                   (tasks s)\<rparr>"

text \<open>\<^verbatim>\<open>startEditingTask\<close>; \<^verbatim>\<open>Array.prototype.find\<close> returns the first match.\<close>

definition startEditingTask :: "jsstring \<Rightarrow> app_state \<Rightarrow> app_state" where
  "startEditingTask taskId s =
     (case find (\<lambda>item. id_field item = taskId) (tasks s) of
        Some taskToEdit \<Rightarrow> s\<lparr>task := text_field taskToEdit, taskBeingEdited := Some taskId\<rparr>
      | None \<Rightarrow> s)"


section \<open>Runs of the component\<close>

text \<open>
  The user gestures the component reacts to. Typing sets the input field; the add button
  calls \<^verbatim>\<open>addOrUpdateTask\<close>, which reads the clock only on its add path; the three buttons
  of a row call \<^verbatim>\<open>deleteTask\<close>, \<^verbatim>\<open>toggleTaskCompletion\<close> and \<^verbatim>\<open>startEditingTask\<close>. The
  operation \<^emph>\<open>add(text)\<close> of the specification is typing the text and pressing the add
  button; \<^emph>\<open>update(id, text)\<close> is the same while the edit target is \<open>id\<close>.
\<close>

datatype event =
    ChangeText jsstring
  | PressAdd int
  | PressDelete jsstring
  | PressToggle jsstring
  | PressEdit jsstring

fun handle :: "event \<Rightarrow> app_state \<Rightarrow> app_state" where
  "handle (ChangeText txt) s = setTask txt s"
| "handle (PressAdd now) s = addOrUpdateTask now s"
| "handle (PressDelete taskId) s = deleteTask taskId s"
| "handle (PressToggle taskId) s = toggleTaskCompletion taskId s"
| "handle (PressEdit taskId) s = startEditingTask taskId s"

fun run :: "event list \<Rightarrow> app_state \<Rightarrow> app_state" where
  "run [] s = s"
| "run (e # es) s = run es (handle e s)"

text \<open>The clock values handed to the add button along a run.\<close>

fun clock_readings :: "event list \<Rightarrow> int list" where
  "clock_readings [] = []"
| "clock_readings (PressAdd now # es) = now # clock_readings es"
| "clock_readings (_ # es) = clock_readings es"

definition ids :: "app_state \<Rightarrow> jsstring list" where
  "ids s = map id_field (tasks s)"

section \<open>JSON\<close>

text \<open>
  \<^verbatim>\<open>loadTasks\<close> and \<^verbatim>\<open>saveTasks\<close> call \<^verbatim>\<open>JSON.parse\<close> and \<^verbatim>\<open>JSON.stringify\<close>. Both are
  built-ins of the JavaScript engine, not code of the repository; they are modelled here from
  their definition in ECMA-262 and the JSON grammar of ECMA-404: \<^verbatim>\<open>JSON.parse\<close> on every
  text, without a reviver, and \<^verbatim>\<open>JSON.stringify\<close> on a value of the type \<^verbatim>\<open>Task[]\<close>, without
  replacer or indentation. Limits of the engine (memory, nesting depth) are not modelled.
\<close>

subsection \<open>JSON.parse\<close>

text \<open>
  The values a JSON text denotes. A number is kept as its numeral, as written: no double
  arithmetic is modelled, two numerals of one value are different terms here, and nothing
  below compares numbers. An object is the list of its properties, each key once, in the
  order of first occurrence in the text (JavaScript lists the keys that are array indices
  first; no key of a task is one).
\<close>

datatype json =
    JNull
  | JBool bool
  | JNumber jsstring
  | JString jsstring
  | JArray "json list"
  | JObject "(jsstring \<times> json) list"

text \<open>Insignificant white space of JSON: TAB, LF, CR and SPACE.\<close>

definition is_json_whitespace :: "code_unit \<Rightarrow> bool" where
  "is_json_whitespace c \<longleftrightarrow> c = 0x0009 \<or> c = 0x000A \<or> c = 0x000D \<or> c = 0x0020"

definition skip_ws :: "jsstring \<Rightarrow> jsstring" where
  "skip_ws s = dropWhile is_json_whitespace s"

text \<open>
  Strings: after the opening quote, any code unit from U+0020 on other than the quote and
  the backslash stands for itself; a backslash begins one of the escapes
  \<^verbatim>\<open>\" \\ \/ \b \f \n \r \t\<close> or \<^verbatim>\<open>\u\<close> with four hexadecimal digits of either case.
  \<open>parse_chars\<close> returns the string and the input after the closing quote.
\<close>

definition hex_value :: "code_unit \<Rightarrow> nat option" where
  "hex_value c =
     (if 0x0030 \<le> c \<and> c \<le> 0x0039 then Some (unat c - 48)
      else if 0x0061 \<le> c \<and> c \<le> 0x0066 then Some (unat c - 87)
      else if 0x0041 \<le> c \<and> c \<le> 0x0046 then Some (unat c - 55)
      else None)"

definition escape_value :: "code_unit \<Rightarrow> code_unit option" where
  "escape_value e =
     (if e = 0x0022 then Some 0x0022
      else if e = 0x005C then Some 0x005C
      else if e = 0x002F then Some 0x002F
      else if e = 0x0062 then Some 0x0008
      else if e = 0x0066 then Some 0x000C
      else if e = 0x006E then Some 0x000A
      else if e = 0x0072 then Some 0x000D
      else if e = 0x0074 then Some 0x0009
      else None)"

definition hex4_value :: "code_unit \<Rightarrow> code_unit \<Rightarrow> code_unit \<Rightarrow> code_unit \<Rightarrow> code_unit option" where
  "hex4_value h1 h2 h3 h4 =
     (case (hex_value h1, hex_value h2, hex_value h3, hex_value h4) of
        (Some a, Some b, Some c, Some d) \<Rightarrow> Some (word_of_nat (((a * 16 + b) * 16 + c) * 16 + d))
      | _ \<Rightarrow> None)"

definition cons_result :: "'a \<Rightarrow> ('a list \<times> 'b) option \<Rightarrow> ('a list \<times> 'b) option" where
  "cons_result x r = (case r of None \<Rightarrow> None | Some (xs, rest) \<Rightarrow> Some (x # xs, rest))"

fun parse_chars :: "jsstring \<Rightarrow> (jsstring \<times> jsstring) option" where
  "parse_chars [] = None"
| "parse_chars (c # cs) =
     (if c = 0x0022 then Some ([], cs)
      else if c = 0x005C then
        (case cs of
           [] \<Rightarrow> None
         | e # es \<Rightarrow>
             if e = 0x0075 then
               (case es of
                  h1 # h2 # h3 # h4 # rest \<Rightarrow>
                    (case hex4_value h1 h2 h3 h4 of
                       None \<Rightarrow> None
                     | Some u \<Rightarrow> cons_result u (parse_chars rest))
                | _ \<Rightarrow> None)
             else
               (case escape_value e of
                  None \<Rightarrow> None
                | Some u \<Rightarrow> cons_result u (parse_chars es)))
      else if c < 0x0020 then None
      else cons_result c (parse_chars cs))"

text \<open>
  Numbers: an optional minus sign, then \<^verbatim>\<open>0\<close> or a digit sequence without leading zero, then
  an optional fraction and an optional exponent, each with at least one digit.
\<close>

definition is_digit :: "code_unit \<Rightarrow> bool" where
  "is_digit c \<longleftrightarrow> 0x0030 \<le> c \<and> c \<le> 0x0039"

definition parse_digits :: "jsstring \<Rightarrow> (jsstring \<times> jsstring) option" where
  "parse_digits s =
     (if takeWhile is_digit s = [] then None
      else Some (takeWhile is_digit s, dropWhile is_digit s))"

definition parse_int_part :: "jsstring \<Rightarrow> (jsstring \<times> jsstring) option" where
  "parse_int_part s =
     (case s of
        [] \<Rightarrow> None
      | c # cs \<Rightarrow> if c = 0x0030 then Some ([c], cs) else parse_digits s)"

definition parse_fraction :: "jsstring \<Rightarrow> (jsstring \<times> jsstring) option" where
  "parse_fraction s =
     (case s of
        [] \<Rightarrow> Some ([], s)
      | c # cs \<Rightarrow>
          if c = 0x002E then
            (case parse_digits cs of None \<Rightarrow> None | Some (ds, rest) \<Rightarrow> Some (c # ds, rest))
          else Some ([], s))"

definition parse_exponent :: "jsstring \<Rightarrow> (jsstring \<times> jsstring) option" where
  "parse_exponent s =
     (case s of
        [] \<Rightarrow> Some ([], s)
      | c # cs \<Rightarrow>
          if c = 0x0065 \<or> c = 0x0045 then
            (case cs of
               [] \<Rightarrow> None
             | g # gs \<Rightarrow>
                 if g = 0x002B \<or> g = 0x002D then
                   (case parse_digits gs of None \<Rightarrow> None | Some (ds, rest) \<Rightarrow> Some (c # g # ds, rest))
                 else
                   (case parse_digits cs of None \<Rightarrow> None | Some (ds, rest) \<Rightarrow> Some (c # ds, rest)))
          else Some ([], s))"

definition parse_unsigned :: "jsstring \<Rightarrow> (jsstring \<times> jsstring) option" where
  "parse_unsigned s =
     (case parse_int_part s of
        None \<Rightarrow> None
      | Some (i, r1) \<Rightarrow>
          (case parse_fraction r1 of
             None \<Rightarrow> None
           | Some (f, r2) \<Rightarrow>
               (case parse_exponent r2 of
                  None \<Rightarrow> None
                | Some (e, r3) \<Rightarrow> Some (i @ f @ e, r3))))"

definition parse_number :: "jsstring \<Rightarrow> (jsstring \<times> jsstring) option" where
  "parse_number s =
     (case s of
        [] \<Rightarrow> None
      | c # cs \<Rightarrow>
          if c = 0x002D then
            (case parse_unsigned cs of None \<Rightarrow> None | Some (n, rest) \<Rightarrow> Some (c # n, rest))
          else parse_unsigned s)"

text \<open>The literals \<^verbatim>\<open>true\<close>, \<^verbatim>\<open>false\<close> and \<^verbatim>\<open>null\<close>.\<close>

definition parse_literal :: "jsstring \<Rightarrow> json \<Rightarrow> jsstring \<Rightarrow> (json \<times> jsstring) option" where
  "parse_literal word v s =
     (if take (length word) s = word then Some (v, drop (length word) s) else None)"

text \<open>
  A key that occurs again in an object replaces the value of its first occurrence, as
  \<^verbatim>\<open>CreateDataProperty\<close> does.
\<close>

fun set_property :: "jsstring \<Rightarrow> json \<Rightarrow> (jsstring \<times> json) list \<Rightarrow> (jsstring \<times> json) list" where
  "set_property k v [] = [(k, v)]"
| "set_property k v (p # ps) = (if fst p = k then (k, v) # ps else p # set_property k v ps)"

definition object_of_members :: "(jsstring \<times> json) list \<Rightarrow> json" where
  "object_of_members kvs = JObject (foldl (\<lambda>props (k, v). set_property k v props) [] kvs)"

text \<open>
  Values, the elements of an array after its opening bracket and the members of an object
  after its opening brace; each returns what it read and the rest of the input. The tests
  \<open>length _ < length s\<close> are there for the termination proof only: they always hold
  (\<open>parse_value_unguarded\<close>, \<open>parse_elements_unguarded\<close> and \<open>parse_members_unguarded\<close>
  below state the three equations without them).
\<close>

function parse_value :: "jsstring \<Rightarrow> (json \<times> jsstring) option"
  and parse_elements :: "jsstring \<Rightarrow> (json list \<times> jsstring) option"
  and parse_members :: "jsstring \<Rightarrow> ((jsstring \<times> json) list \<times> jsstring) option"
where
  "parse_value s =
     (case skip_ws s of
        [] \<Rightarrow> None
      | c # cs \<Rightarrow>
          if c = 0x007B then
            (case skip_ws cs of
               [] \<Rightarrow> None
             | d # ds \<Rightarrow>
                 if d = 0x007D then Some (JObject [], ds)
                 else if length cs < length s then
                   (case parse_members cs of
                      None \<Rightarrow> None
                    | Some (kvs, rest) \<Rightarrow> Some (object_of_members kvs, rest))
                 else None)
          else if c = 0x005B then
            (case skip_ws cs of
               [] \<Rightarrow> None
             | d # ds \<Rightarrow>
                 if d = 0x005D then Some (JArray [], ds)
                 else if length cs < length s then
                   (case parse_elements cs of
                      None \<Rightarrow> None
                    | Some (vs, rest) \<Rightarrow> Some (JArray vs, rest))
                 else None)
          else if c = 0x0022 then
            (case parse_chars cs of
               None \<Rightarrow> None
             | Some (str, rest) \<Rightarrow> Some (JString str, rest))
          else if c = 0x0074 then parse_literal (js ''true'') (JBool True) (c # cs)
          else if c = 0x0066 then parse_literal (js ''false'') (JBool False) (c # cs)
          else if c = 0x006E then parse_literal (js ''null'') JNull (c # cs)
          else
            (case parse_number (c # cs) of
               None \<Rightarrow> None
             | Some (n, rest) \<Rightarrow> Some (JNumber n, rest)))"
| "parse_elements s =
     (case parse_value s of
        None \<Rightarrow> None
      | Some (v, r) \<Rightarrow>
          (case skip_ws r of
             [] \<Rightarrow> None
           | c # cs \<Rightarrow>
               if c = 0x002C then
                 (if length cs < length s then cons_result v (parse_elements cs) else None)
               else if c = 0x005D then Some ([v], cs)
               else None))"
| "parse_members s =
     (case skip_ws s of
        [] \<Rightarrow> None
      | q # qs \<Rightarrow>
          if q = 0x0022 then
            (case parse_chars qs of
               None \<Rightarrow> None
             | Some (k, r1) \<Rightarrow>
                 (case skip_ws r1 of
                    [] \<Rightarrow> None
                  | c # r2 \<Rightarrow>
                      if c = 0x003A \<and> length r2 < length s then
                        (case parse_value r2 of
                           None \<Rightarrow> None
                         | Some (v, r3) \<Rightarrow>
                             (case skip_ws r3 of
                                [] \<Rightarrow> None
                              | d # r4 \<Rightarrow>
                                  if d = 0x002C then
                                    (if length r4 < length s then cons_result (k, v) (parse_members r4)
                                     else None)
                                  else if d = 0x007D then Some ([(k, v)], r4)
                                  else None))
                      else None))
          else None)"
  by pat_completeness auto
termination
  by (relation "measure (\<lambda>x. case x of
        Inl s \<Rightarrow> 2 * length s
      | Inr (Inl s) \<Rightarrow> 2 * length s + 1
      | Inr (Inr s) \<Rightarrow> 2 * length s + 1)") auto

declare parse_value.simps [simp del] parse_elements.simps [simp del] parse_members.simps [simp del]

text \<open>
  \<^verbatim>\<open>JSON.parse(text)\<close>: one value with nothing but white space around it; \<open>None\<close> is the
  \<^verbatim>\<open>SyntaxError\<close> it throws otherwise.
\<close>

definition JSON_parse :: "jsstring \<Rightarrow> json option" where
  "JSON_parse s =
     (case parse_value s of
        None \<Rightarrow> None
      | Some (v, rest) \<Rightarrow> if skip_ws rest = [] then Some v else None)"

subsection \<open>JSON.stringify on a task list\<close>

text \<open>
  \<^verbatim>\<open>QuoteJSONString\<close> walks the code points of the string: a leading surrogate followed by
  a trailing one is one code point and is copied; the quote, the backslash and the control
  characters BS, TAB, LF, FF, CR get their two-character escape; every other code unit below
  U+0020 and every lone surrogate is written as \<^verbatim>\<open>\u\<close> and four lower-case hexadecimal
  digits; everything else is copied.
\<close>

definition is_leading_surrogate :: "code_unit \<Rightarrow> bool" where
  "is_leading_surrogate c \<longleftrightarrow> 0xD800 \<le> c \<and> c \<le> 0xDBFF"

definition is_trailing_surrogate :: "code_unit \<Rightarrow> bool" where
  "is_trailing_surrogate c \<longleftrightarrow> 0xDC00 \<le> c \<and> c \<le> 0xDFFF"

definition hex_digit :: "nat \<Rightarrow> code_unit" where
  "hex_digit d = (if d < 10 then 0x0030 + word_of_nat d else 0x0061 + word_of_nat (d - 10))"

definition UnicodeEscape :: "code_unit \<Rightarrow> jsstring" where
  "UnicodeEscape c =
     [0x005C, 0x0075, hex_digit (unat c div 4096), hex_digit (unat c div 256 mod 16),
      hex_digit (unat c div 16 mod 16), hex_digit (unat c mod 16)]"

definition quote_unit :: "code_unit \<Rightarrow> jsstring" where
  "quote_unit c =
     (if c = 0x0008 then [0x005C, 0x0062]
      else if c = 0x0009 then [0x005C, 0x0074]
      else if c = 0x000A then [0x005C, 0x006E]
      else if c = 0x000C then [0x005C, 0x0066]
      else if c = 0x000D then [0x005C, 0x0072]
      else if c = 0x0022 then [0x005C, 0x0022]
      else if c = 0x005C then [0x005C, 0x005C]
      else if c < 0x0020 \<or> is_leading_surrogate c \<or> is_trailing_surrogate c then UnicodeEscape c
      else [c])"

fun quote_units :: "jsstring \<Rightarrow> jsstring" where
  "quote_units [] = []"
| "quote_units [c] = quote_unit c"
| "quote_units (c # d # cs) =
     (if is_leading_surrogate c \<and> is_trailing_surrogate d then c # d # quote_units cs
      else quote_unit c @ quote_units (d # cs))"

definition QuoteJSONString :: "jsstring \<Rightarrow> jsstring" where
  "QuoteJSONString s = 0x0022 # quote_units s @ [0x0022]"

text \<open>
  \<^verbatim>\<open>SerializeJSONObject\<close> on a task: the three properties in the order in which every task
  of the component is built (\<^verbatim>\<open>{ id, text, completed }\<close>, kept by the spread in the update),
  and \<^verbatim>\<open>SerializeJSONArray\<close> on the list, both without white space.
\<close>

definition stringify_task :: "Task \<Rightarrow> jsstring" where
  "stringify_task t =
     0x007B # QuoteJSONString (js ''id'') @ 0x003A # QuoteJSONString (id_field t) @
     0x002C # QuoteJSONString (js ''text'') @ 0x003A # QuoteJSONString (text_field t) @
     0x002C # QuoteJSONString (js ''completed'') @ 0x003A #
       (if completed t then js ''true'' else js ''false'') @ [0x007D]"

fun join_comma :: "jsstring list \<Rightarrow> jsstring" where
  "join_comma [] = []"
| "join_comma [x] = x"
| "join_comma (x # y # ys) = x @ 0x002C # join_comma (y # ys)"

definition JSON_stringify :: "Task list \<Rightarrow> jsstring" where
  "JSON_stringify ts = 0x005B # join_comma (map stringify_task ts) @ [0x005D]"

subsection \<open>A JSON value read at the type of the task list\<close>

text \<open>
  \<open>json_of_task\<close> is the value of a task; \<open>tasks_of_json\<close> reads a value at the type
  \<^verbatim>\<open>Task[]\<close> of the interface: an array of objects whose properties \<^verbatim>\<open>id\<close> and \<^verbatim>\<open>text\<close>
  are strings and whose property \<^verbatim>\<open>completed\<close> is a boolean. It is \<open>None\<close> for a value of
  any other shape.
\<close>

definition json_of_task :: "Task \<Rightarrow> json" where
  "json_of_task t =
     JObject [(js ''id'', JString (id_field t)), (js ''text'', JString (text_field t)),
              (js ''completed'', JBool (completed t))]"

definition task_of_json :: "json \<Rightarrow> Task option" where
  "task_of_json v =
     (case v of
        JObject props \<Rightarrow>
          (case (map_of props (js ''id''), map_of props (js ''text''), map_of props (js ''completed'')) of
             (Some (JString i), Some (JString t), Some (JBool c)) \<Rightarrow>
               Some \<lparr>id_field = i, text_field = t, completed = c\<rparr>
           | _ \<Rightarrow> None)
      | _ \<Rightarrow> None)"

fun tasks_of_elements :: "json list \<Rightarrow> Task list option" where
  "tasks_of_elements [] = Some []"
| "tasks_of_elements (v # vs) =
     (case task_of_json v of
        None \<Rightarrow> None
      | Some t \<Rightarrow> (case tasks_of_elements vs of None \<Rightarrow> None | Some ts \<Rightarrow> Some (t # ts)))"

definition tasks_of_json :: "json \<Rightarrow> Task list option" where
  "tasks_of_json v = (case v of JArray vs \<Rightarrow> tasks_of_elements vs | _ \<Rightarrow> None)"

section \<open>Loading and saving\<close>

text \<open>
  \<^verbatim>\<open>AsyncStorage.getItem\<close> returns a promise that is rejected or resolves to the stored
  string, or to \<^verbatim>\<open>null\<close> when nothing is stored. \<^verbatim>\<open>loadTasks\<close> awaits it inside
  \<^verbatim>\<open>try\<close>: a rejection and the \<^verbatim>\<open>SyntaxError\<close> of \<^verbatim>\<open>JSON.parse\<close> are caught and logged
  with \<^verbatim>\<open>console.error\<close>; \<^verbatim>\<open>null\<close> and the empty string are falsy and nothing happens; any
  other parsed value is handed to \<^verbatim>\<open>setTasks\<close> as it is. The outcome says which of the
  three happened.
\<close>

datatype 'a promise = Rejected | Resolved 'a

datatype load_outcome = SetTasks json | NothingStored | ErrorLogged

definition loadTasks :: "jsstring option promise \<Rightarrow> load_outcome" where
  "loadTasks got =
     (case got of
        Rejected \<Rightarrow> ErrorLogged
      | Resolved None \<Rightarrow> NothingStored
      | Resolved (Some savedTasks) \<Rightarrow>
          if savedTasks = [] then NothingStored
          else (case JSON_parse savedTasks of
                  None \<Rightarrow> ErrorLogged
                | Some v \<Rightarrow> SetTasks v))"

text \<open>
  The cell \<^verbatim>\<open>tasks\<close> as a JavaScript value, and what \<^verbatim>\<open>loadTasks\<close> does to it: \<^verbatim>\<open>setTasks\<close>
  replaces the value, whatever it was, by the parsed one; on the other two paths no
  \<^verbatim>\<open>setTasks\<close> is called and the cell keeps the value it has.
\<close>

definition tasks_cell :: "app_state \<Rightarrow> json" where
  "tasks_cell s = JArray (map json_of_task (tasks s))"

definition cell_after_load :: "load_outcome \<Rightarrow> json \<Rightarrow> json" where
  "cell_after_load outcome cell =
     (case outcome of
        SetTasks v \<Rightarrow> v
      | NothingStored \<Rightarrow> cell
      | ErrorLogged \<Rightarrow> cell)"

text \<open>
  \<^verbatim>\<open>saveTasks\<close> hands this text to \<^verbatim>\<open>AsyncStorage.setItem\<close> under the key
  \<^verbatim>\<open>'tasks'\<close>; a rejection is caught and logged. The storage is outside the repository: when
  the write succeeds, a later \<^verbatim>\<open>getItem\<close> resolves to the text.
\<close>

definition saveTasks :: "Task list \<Rightarrow> jsstring" where
  "saveTasks updatedTasks = JSON_stringify updatedTasks"

section \<open>Concrete states of the scenarios\<close>

definition milk :: Task where
  "milk = \<lparr>id_field = js ''1700000000000'', text_field = js ''buy milk'', completed = False\<rparr>"

definition eggs :: Task where
  "eggs = \<lparr>id_field = js ''1700000000007'', text_field = js ''buy eggs'', completed = True\<rparr>"

definition one_task :: app_state where
  "one_task = \<lparr>task = [], tasks = [milk], taskBeingEdited = None\<rparr>"

definition two_tasks :: app_state where
  "two_tasks = \<lparr>task = js ''buy bread'', tasks = [milk, eggs], taskBeingEdited = Some (js ''1700000000000'')\<rparr>"

definition milk_run :: "event list" where
  "milk_run = [ChangeText (js ''buy milk''), PressAdd 1700000000000]"

definition two_adds :: "event list" where
  "two_adds = [ChangeText (js ''a''), PressAdd 1700000000000, ChangeText (js ''b''), PressAdd 1700000000000]"

definition busy_run :: "event list" where
  "busy_run = [ChangeText (js ''a''), PressAdd 1700000000000, ChangeText (js ''b''),
     PressAdd 1700000000001, PressToggle (js ''1700000000000''), PressEdit (js ''1700000000001''),
     ChangeText (js ''c''), PressAdd 1700000000002, PressDelete (js ''1700000000000'')]"

text \<open>Two stored texts: a JSON text of the wrong shape, and a saved list cut short.\<close>

definition wrong_shape :: jsstring where
  \<open>wrong_shape = js ''[{"id":1}]''\<close>

definition cut_short :: jsstring where
  \<open>cut_short = js ''[{"id":"1700000000000","text":"buy''\<close>

section \<open>Decimal numerals are injective\<close>

lemma digit_value_digit_unit: "d < 10 \<Longrightarrow> digit_value (digit_unit d) = d"
  by (simp add: digit_value_def digit_unit_def unat_of_nat)

lemma decimal_value_nat_digits: "decimal_value (nat_digits n) = n"
proof (induction n rule: nat_digits.induct)
  case (1 n)
  show ?case
  proof (cases "n < 10")
    case True
    then show ?thesis
      by (simp add: nat_digits.simps [of n] decimal_value_def digit_value_digit_unit)
  next
    case False
    with 1 have "decimal_value (nat_digits (n div 10)) = n div 10" by simp
    with False show ?thesis
      by (simp add: nat_digits.simps [of n] decimal_value_def digit_value_digit_unit)
  qed
qed

lemma nat_digits_inj: "nat_digits m = nat_digits n \<Longrightarrow> m = n"
  by (metis decimal_value_nat_digits)

lemma digit_unit_not_minus: "d < 10 \<Longrightarrow> digit_unit d \<noteq> 0x002D"
proof
  assume d: "d < 10" and eq: "digit_unit d = 0x002D"
  have "digit_value (0x002D :: code_unit) = 65533" by (simp add: digit_value_def)
  with eq digit_value_digit_unit [OF d] d show False by simp
qed

lemma hd_nat_digits: "\<exists>d ds. d < 10 \<and> nat_digits n = digit_unit d # ds"
proof (induction n rule: nat_digits.induct)
  case (1 n)
  show ?case
  proof (cases "n < 10")
    case True
    then show ?thesis by (auto simp add: nat_digits.simps [of n])
  next
    case False
    with 1 obtain d ds where "d < 10" "nat_digits (n div 10) = digit_unit d # ds" by blast
    with False show ?thesis by (auto simp add: nat_digits.simps [of n])
  qed
qed

lemma nat_digits_not_minus: "nat_digits n \<noteq> 0x002D # ds"
  using hd_nat_digits [of n] digit_unit_not_minus by auto

lemma Number_toString_inj: "Number_toString m = Number_toString n \<Longrightarrow> m = n"
  unfolding Number_toString_def
  by (auto split: if_splits dest: nat_digits_inj
      simp: nat_digits_not_minus nat_digits_not_minus [symmetric])

section \<open>The handlers on the list\<close>

lemma edit_target_task_update: "edit_target (s\<lparr>task := txt\<rparr>) = edit_target s"
  by (simp add: edit_target_def)

lemma ids_map_text:
  "map id_field (map (\<lambda>item. if id_field item = e then item\<lparr>text_field := t\<rparr> else item) ts) =
   map id_field ts"
  by (induction ts) auto

lemma ids_map_completed:
  "map id_field (map (\<lambda>item. if id_field item = e then item\<lparr>completed := \<not> completed item\<rparr> else item) ts) =
   map id_field ts"
  by (induction ts) auto

lemma ids_filter:
  "map id_field (filter (\<lambda>item. id_field item \<noteq> e) ts) = filter (\<lambda>i. i \<noteq> e) (map id_field ts)"
  by (induction ts) auto

lemma map_absent:
  "e \<notin> id_field ` set ts \<Longrightarrow> map (\<lambda>item. if id_field item = e then f item else item) ts = ts"
  by (induction ts) auto

lemma text_of_updated:
  assumes "x \<in> set (map (\<lambda>item. if id_field item = e then item\<lparr>text_field := txt\<rparr> else item) ts)"
    and "id_field x = e"
  shows "text_field x = txt"
proof -
  from assms(1) obtain y where y: "x = (if id_field y = e then y\<lparr>text_field := txt\<rparr> else y)"
    unfolding set_map image_iff by blast
  show ?thesis
  proof (cases "id_field y = e")
    case True
    with y show ?thesis by simp
  next
    case False
    with y assms(2) show ?thesis by simp
  qed
qed

lemma add_path:
  "trim txt \<noteq> [] \<Longrightarrow> edit_target s = None \<Longrightarrow>
   addOrUpdateTask now (setTask txt s) =
     s\<lparr>tasks := tasks s @ [\<lparr>id_field = Number_toString now, text_field = txt, completed = False\<rparr>],
       task := []\<rparr>"
  by (simp add: addOrUpdateTask_def setTask_def edit_target_task_update)

lemma update_path:
  "trim txt \<noteq> [] \<Longrightarrow> edit_target s = Some e \<Longrightarrow>
   addOrUpdateTask now (setTask txt s) =
     s\<lparr>tasks := map (\<lambda>item. if id_field item = e then item\<lparr>text_field := txt\<rparr> else item) (tasks s),
       task := [], taskBeingEdited := None\<rparr>"
  by (simp add: addOrUpdateTask_def setTask_def edit_target_task_update)

lemma blank_path: "trim txt = [] \<Longrightarrow> addOrUpdateTask now (setTask txt s) = setTask txt s"
  by (simp add: addOrUpdateTask_def setTask_def)

lemma startEditingTask_present:
  assumes "X \<in> set (tasks s)"
  shows "\<exists>Y :: Task. startEditingTask (id_field X) s =
           s\<lparr>task := text_field Y, taskBeingEdited := Some (id_field X)\<rparr>"
proof -
  from assms have "find (\<lambda>item. id_field item = id_field X) (tasks s) \<noteq> None"
    by (auto simp: find_None_iff)
  then obtain Y where "find (\<lambda>item. id_field item = id_field X) (tasks s) = Some Y"
    by auto
  then have "startEditingTask (id_field X) s = s\<lparr>task := text_field Y, taskBeingEdited := Some (id_field X)\<rparr>"
    by (simp add: startEditingTask_def)
  then show ?thesis by (rule exI)
qed

lemma tasks_startEditingTask: "tasks (startEditingTask taskId s) = tasks s"
  by (simp add: startEditingTask_def split: option.splits)


section \<open>Identifiers along a run\<close>

lemma ids_handle:
  "ids (handle e s) = ids s \<or>
   (\<exists>now. e = PressAdd now \<and> ids (handle e s) = ids s @ [Number_toString now]) \<or>
   (\<exists>taskId. e = PressDelete taskId \<and> ids (handle e s) = filter (\<lambda>i. i \<noteq> taskId) (ids s))"
  by (cases e)
     (auto simp: ids_def setTask_def addOrUpdateTask_def deleteTask_def toggleTaskCompletion_def
        startEditingTask_def ids_map_text ids_map_completed ids_filter split: option.splits)

lemma run_distinct_ids:
  "distinct (ids s) \<Longrightarrow> distinct (clock_readings es) \<Longrightarrow>
   Number_toString ` set (clock_readings es) \<inter> set (ids s) = {} \<Longrightarrow>
   distinct (ids (run es s))"
proof (induction es arbitrary: s)
  case Nil
  then show ?case by simp
next
  case (Cons e es)
  have step: "distinct (ids (handle e s)) \<and> distinct (clock_readings es) \<and>
     Number_toString ` set (clock_readings es) \<inter> set (ids (handle e s)) = {}"
  proof (cases e)
    case (PressAdd now)
    with Cons.prems ids_handle [of e s] show ?thesis
      by (fastforce dest: Number_toString_inj)
  next
    case (ChangeText x)
    with Cons.prems ids_handle [of e s] show ?thesis by auto
  next
    case (PressDelete x)
    with Cons.prems ids_handle [of e s] show ?thesis by auto
  next
    case (PressToggle x)
    with Cons.prems ids_handle [of e s] show ?thesis by auto
  next
    case (PressEdit x)
    with Cons.prems ids_handle [of e s] show ?thesis by auto
  qed
  then show ?case using Cons.IH [of "handle e s"] by simp
qed

text \<open>
  C1 (as amended). Starting from the empty list, after any sequence of gestures (typing,
  add or update, toggle, delete, begin edit) the ids of the list are pairwise distinct,
  provided the clock values read at the add presses of the sequence are pairwise distinct.
\<close>

theorem ids_distinct_if_clock_distinct:
  "distinct (clock_readings es) \<Longrightarrow> distinct (map id_field (tasks (run es initial_state)))"
  using run_distinct_ids [of initial_state es] by (simp add: ids_def initial_state_def)

theorem ids_distinct_if_clock_distinct_witness:
  "distinct (clock_readings busy_run) \<and> distinct (map id_field (tasks (run busy_run initial_state)))"
proof -
  have "distinct (clock_readings busy_run)" by (simp add: busy_run_def)
  with ids_distinct_if_clock_distinct [of busy_run] show ?thesis by simp
qed

text \<open>
  C1 as stated fails: two adds that read the same clock value give two tasks with the same
  id, since the id is the decimal numeral of \<^verbatim>\<open>Date.now()\<close> and nothing compares it with the
  ids already in the list.
\<close>

theorem same_clock_duplicate_ids:
  "tasks (run two_adds initial_state) =
     [\<lparr>id_field = js ''1700000000000'', text_field = js ''a'', completed = False\<rparr>,
      \<lparr>id_field = js ''1700000000000'', text_field = js ''b'', completed = False\<rparr>] \<and>
   \<not> distinct (map id_field (tasks (run two_adds initial_state)))"
  by (simp add: two_adds_def initial_state_def setTask_def addOrUpdateTask_def edit_target_def
      js_def trim_def is_js_whitespace_def Number_toString_def nat_digits.simps digit_unit_def)

section \<open>Adding and updating\<close>

text \<open>
  C3. When the input is empty after trimming, pressing the add button leaves the list as it
  is, whether or not an edit is in progress; in particular after beginning to edit an
  existing task, so that task keeps its text.
\<close>

theorem blank_input_is_noop:
  "trim txt = [] \<Longrightarrow>
   tasks (addOrUpdateTask now (setTask txt s)) = tasks s \<and>
   tasks (addOrUpdateTask now (setTask txt (startEditingTask taskId s))) = tasks s"
  by (simp add: blank_path tasks_startEditingTask) (simp add: setTask_def tasks_startEditingTask)

theorem blank_input_is_noop_witness:
  "trim (js ''   '') = [] \<and>
   tasks (addOrUpdateTask 1700000000555 (setTask (js ''   '') one_task)) = [milk] \<and>
   tasks (addOrUpdateTask 1700000000555 (setTask (js ''   '') (startEditingTask (js ''1700000000000'') one_task)))
     = [milk]"
proof -
  have blank: "trim (js ''   '') = []" by (simp add: js_def trim_def is_js_whitespace_def)
  from blank_input_is_noop [OF blank, of 1700000000555 one_task "js ''1700000000000''"] blank
  show ?thesis by (simp add: one_task_def)
qed

text \<open>
  C6. When no edit is in progress and the input is not empty after trimming, add appends
  one task with the given text and \<open>completed = false\<close> at the end of the list and leaves
  the tasks before it as they are. From the empty list, adding "buy milk" gives the list of
  that one task.
\<close>

theorem add_appends_new_task:
  "edit_target s = None \<Longrightarrow> trim txt \<noteq> [] \<Longrightarrow>
   tasks (addOrUpdateTask now (setTask txt s)) =
     tasks s @ [\<lparr>id_field = Number_toString now, text_field = txt, completed = False\<rparr>]"
  by (simp add: add_path)

theorem add_appends_new_task_witness:
  "edit_target initial_state = None \<and> trim (js ''buy milk'') \<noteq> [] \<and>
   tasks (addOrUpdateTask 1700000000000 (setTask (js ''buy milk'') initial_state)) = [milk]"
proof -
  have 1: "edit_target initial_state = None" by (simp add: edit_target_def initial_state_def)
  have 2: "trim (js ''buy milk'') \<noteq> []" by (simp add: js_def trim_def is_js_whitespace_def)
  have 3: "Number_toString 1700000000000 = js ''1700000000000''"
    by (simp add: Number_toString_def nat_digits.simps digit_unit_def js_def)
  from add_appends_new_task [OF 1 2, of 1700000000000] 1 2 3
  show ?thesis by (simp add: initial_state_def milk_def)
qed


lemma edit_then_add_nonempty_id:
  assumes "X \<in> set (tasks s)" and "id_field X \<noteq> []" and "trim txt \<noteq> []"
    and "s' = addOrUpdateTask now (setTask txt (startEditingTask (id_field X) s))"
  shows "length (tasks s') = length (tasks s) \<and>
    (\<forall>i < length (tasks s). tasks s' ! i =
       (if id_field (tasks s ! i) = id_field X then (tasks s ! i)\<lparr>text_field := txt\<rparr> else tasks s ! i)) \<and>
    (\<forall>item \<in> set (tasks s'). id_field item = id_field X \<longrightarrow> text_field item = txt) \<and>
    taskBeingEdited s' = None \<and> task s' = []"
proof -
  from startEditingTask_present [OF assms(1)] obtain Y :: Task
    where Y: "startEditingTask (id_field X) s = s\<lparr>task := text_field Y, taskBeingEdited := Some (id_field X)\<rparr>"
    by blast
  let ?s1 = "s\<lparr>task := text_field Y, taskBeingEdited := Some (id_field X)\<rparr>"
  have target: "edit_target ?s1 = Some (id_field X)"
    using assms(2) by (simp add: edit_target_def)
  have s': "s' = ?s1\<lparr>tasks := map (\<lambda>item. if id_field item = id_field X then item\<lparr>text_field := txt\<rparr> else item) (tasks ?s1),
       task := [], taskBeingEdited := None\<rparr>"
    unfolding assms(4) Y by (rule update_path [OF assms(3) target])
  have 1: "length (tasks s') = length (tasks s)" by (simp add: s')
  have 2: "\<forall>i < length (tasks s). tasks s' ! i =
       (if id_field (tasks s ! i) = id_field X then (tasks s ! i)\<lparr>text_field := txt\<rparr> else tasks s ! i)"
    by (simp add: s')
  have "tasks s' = map (\<lambda>item. if id_field item = id_field X then item\<lparr>text_field := txt\<rparr> else item) (tasks s)"
    by (simp add: s')
  then have "\<And>item. item \<in> set (tasks s') \<Longrightarrow> id_field item = id_field X \<Longrightarrow> text_field item = txt"
    by (simp only: text_of_updated)
  then have 3: "\<forall>item \<in> set (tasks s'). id_field item = id_field X \<longrightarrow> text_field item = txt"
    by blast
  have 4: "taskBeingEdited s' = None \<and> task s' = []" by (simp add: s')
  from 1 2 3 4 show ?thesis by blast
qed

text \<open>
  Every id the component holds is a decimal numeral made by \<^verbatim>\<open>Date.now().toString()\<close>, so
  no task of a list reached from the empty list has the empty string as its id.
\<close>

lemma Number_toString_nonempty: "Number_toString n \<noteq> []"
  using hd_nat_digits [of "nat n"] hd_nat_digits [of "nat (- n)"]
  by (auto simp: Number_toString_def)

lemma handle_ids_nonempty: "[] \<notin> set (ids s) \<Longrightarrow> [] \<notin> set (ids (handle e s))"
proof -
  assume old: "[] \<notin> set (ids s)"
  from ids_handle [of e s] consider (same) "ids (handle e s) = ids s"
    | (add) now where "ids (handle e s) = ids s @ [Number_toString now]"
    | (del) taskId where "ids (handle e s) = filter (\<lambda>i. i \<noteq> taskId) (ids s)"
    by blast
  then show ?thesis
  proof cases
    case same
    with old show ?thesis by simp
  next
    case (add now)
    from Number_toString_nonempty [of now] have "[] \<noteq> Number_toString now" by (rule not_sym)
    with old add show ?thesis by simp
  next
    case (del taskId)
    with old show ?thesis by simp
  qed
qed

lemma run_ids_nonempty: "[] \<notin> set (ids s) \<Longrightarrow> [] \<notin> set (ids (run es s))"
proof (induction es arbitrary: s)
  case Nil
  then show ?case by simp
next
  case (Cons e es)
  from Cons.IH [OF handle_ids_nonempty [OF Cons.prems]] show ?case by simp
qed

lemma reachable_ids_nonempty:
  assumes "X \<in> set (tasks (run es initial_state))"
  shows "id_field X \<noteq> []"
proof -
  have "[] \<notin> set (ids initial_state)" by (simp add: ids_def initial_state_def)
  from run_ids_nonempty [OF this, of es] have "[] \<notin> id_field ` set (tasks (run es initial_state))"
    by (simp add: ids_def)
  with assms show ?thesis by force
qed

text \<open>
  C4. In every state the component reaches from its initial state by any sequence of
  gestures, when the list holds a task X, beginning to edit X and then adding a text that
  is not empty after trimming updates X in place: the list keeps its length, every task
  with the id of X gets the new text and every other task stays as it is, each at its
  position, and the edit target and the input field are cleared.
\<close>

theorem edit_then_add_updates_in_place:
  assumes "s = run es initial_state" and "X \<in> set (tasks s)" and "trim txt \<noteq> []"
    and "s' = addOrUpdateTask now (setTask txt (startEditingTask (id_field X) s))"
  shows "length (tasks s') = length (tasks s) \<and>
    (\<forall>i < length (tasks s). tasks s' ! i =
       (if id_field (tasks s ! i) = id_field X then (tasks s ! i)\<lparr>text_field := txt\<rparr> else tasks s ! i)) \<and>
    (\<forall>item \<in> set (tasks s'). id_field item = id_field X \<longrightarrow> text_field item = txt) \<and>
    taskBeingEdited s' = None \<and> task s' = []"
proof -
  from assms(1,2) have "id_field X \<noteq> []" using reachable_ids_nonempty [of X es] by simp
  from edit_then_add_nonempty_id [OF assms(2) this assms(3,4)] show ?thesis .
qed

text \<open>
  The witness is Scenario B: the list reached by adding "buy milk", then editing that task
  and adding "buy bread".
\<close>

theorem edit_then_add_updates_in_place_witness:
  "run milk_run initial_state = one_task \<and> milk \<in> set (tasks one_task) \<and>
   trim (js ''buy bread'') \<noteq> [] \<and>
   tasks (addOrUpdateTask 1700000000555 (setTask (js ''buy bread'') (startEditingTask (id_field milk) one_task)))
     = [milk\<lparr>text_field := js ''buy bread''\<rparr>]"
proof -
  let ?s' = "addOrUpdateTask 1700000000555 (setTask (js ''buy bread'') (startEditingTask (id_field milk) one_task))"
  have 0: "one_task = run milk_run initial_state"
    by (simp add: milk_run_def one_task_def milk_def initial_state_def setTask_def addOrUpdateTask_def
        edit_target_def js_def trim_def is_js_whitespace_def Number_toString_def nat_digits.simps
        digit_unit_def)
  have 1: "milk \<in> set (tasks one_task)" by (simp add: one_task_def)
  have 3: "trim (js ''buy bread'') \<noteq> []" by (simp add: js_def trim_def is_js_whitespace_def)
  from edit_then_add_updates_in_place [OF 0 1 3 refl, of 1700000000555]
  have "length (tasks ?s') = 1" and "tasks ?s' ! 0 = milk\<lparr>text_field := js ''buy bread''\<rparr>"
    by (simp_all add: one_task_def)
  then have "tasks ?s' = [milk\<lparr>text_field := js ''buy bread''\<rparr>]"
    by (cases "tasks ?s'") simp_all
  with 0 1 3 show ?thesis by simp
qed

text \<open>
  C10. The text is stored as typed, not trimmed: after an add or an update with a text that
  is not empty after trimming, the new task (the last of the list), or every task with
  the id of the edit target, has exactly the text of the input field.
\<close>

theorem text_stored_verbatim:
  assumes "trim txt \<noteq> []" and "s' = addOrUpdateTask now (setTask txt s)"
  shows "(edit_target s = None \<longrightarrow> tasks s' \<noteq> [] \<and> text_field (last (tasks s')) = txt) \<and>
         (\<forall>e. edit_target s = Some e \<longrightarrow>
            (\<forall>item \<in> set (tasks s'). id_field item = e \<longrightarrow> text_field item = txt))"
proof (cases "edit_target s")
  case None
  from add_path [OF assms(1) None, of now]
  have "tasks s' = tasks s @ [\<lparr>id_field = Number_toString now, text_field = txt, completed = False\<rparr>]"
    unfolding assms(2) by simp
  with None show ?thesis by simp
next
  case (Some e)
  from update_path [OF assms(1) Some, of now]
  have "tasks s' = map (\<lambda>item. if id_field item = e then item\<lparr>text_field := txt\<rparr> else item) (tasks s)"
    unfolding assms(2) by simp
  then have "\<And>item. item \<in> set (tasks s') \<Longrightarrow> id_field item = e \<Longrightarrow> text_field item = txt"
    by (simp only: text_of_updated)
  then have "\<forall>item \<in> set (tasks s'). id_field item = e \<longrightarrow> text_field item = txt"
    by blast
  with Some show ?thesis by simp
qed

theorem text_stored_verbatim_witness:
  "trim (js ''  buy milk '') = js ''buy milk'' \<and>
   text_field (last (tasks (addOrUpdateTask 1700000000000 (setTask (js ''  buy milk '') initial_state))))
     = js ''  buy milk '' \<and>
   edit_target two_tasks = Some (id_field milk) \<and>
   text_field (hd (tasks (addOrUpdateTask 1700000000555 (setTask (js ''  buy milk '') two_tasks))))
     = js ''  buy milk ''"
proof -
  let ?txt = "js ''  buy milk ''"
  let ?s' = "addOrUpdateTask 1700000000555 (setTask ?txt two_tasks)"
  have 1: "trim ?txt = js ''buy milk''" by (simp add: js_def trim_def is_js_whitespace_def)
  then have 2: "trim ?txt \<noteq> []" by (simp add: js_def)
  have 3: "edit_target initial_state = None" by (simp add: edit_target_def initial_state_def)
  have 4: "edit_target two_tasks = Some (id_field milk)"
    by (simp add: edit_target_def two_tasks_def milk_def js_def)
  from text_stored_verbatim [OF 2 refl, of initial_state 1700000000000] 3
  have added: "text_field (last (tasks (addOrUpdateTask 1700000000000 (setTask ?txt initial_state)))) = ?txt"
    by simp
  from update_path [OF 2 4, of 1700000000555]
  have first: "hd (tasks ?s') \<in> set (tasks ?s')" "id_field (hd (tasks ?s')) = id_field milk"
    by (simp_all add: two_tasks_def)
  from text_stored_verbatim [OF 2 refl, of two_tasks 1700000000555] 4
  have "\<forall>item \<in> set (tasks ?s'). id_field item = id_field milk \<longrightarrow> text_field item = ?txt"
    by simp
  with first have "text_field (hd (tasks ?s')) = ?txt" by blast
  with 1 added 4 show ?thesis by blast
qed

section \<open>Frame properties of update, toggle and delete\<close>

lemma update_frame:
  assumes "edit_target s = Some e"
  shows "length (tasks (addOrUpdateTask now s)) = length (tasks s)"
    and "map id_field (tasks (addOrUpdateTask now s)) = map id_field (tasks s)"
    and "\<forall>i < length (tasks s). id_field (tasks s ! i) \<noteq> e \<longrightarrow>
           tasks (addOrUpdateTask now s) ! i = tasks s ! i"
    and "e \<notin> id_field ` set (tasks s) \<longrightarrow> tasks (addOrUpdateTask now s) = tasks s"
  using assms by (simp_all add: addOrUpdateTask_def ids_map_text map_absent)

lemma toggle_frame:
  shows "length (tasks (toggleTaskCompletion e s)) = length (tasks s)"
    and "map id_field (tasks (toggleTaskCompletion e s)) = map id_field (tasks s)"
    and "\<forall>i < length (tasks s). id_field (tasks s ! i) \<noteq> e \<longrightarrow>
           tasks (toggleTaskCompletion e s) ! i = tasks s ! i"
    and "e \<notin> id_field ` set (tasks s) \<longrightarrow> tasks (toggleTaskCompletion e s) = tasks s"
  by (simp_all add: toggleTaskCompletion_def ids_map_completed map_absent)

lemma count_list_filter: "P x \<Longrightarrow> count_list (filter P ts) x = count_list ts x"
  by (induction ts) auto

lemma delete_frame:
  shows "subseq (tasks (deleteTask e s)) (tasks s)"
    and "set (tasks (deleteTask e s)) = {item \<in> set (tasks s). id_field item \<noteq> e}"
    and "\<forall>item. id_field item \<noteq> e \<longrightarrow>
           count_list (tasks (deleteTask e s)) item = count_list (tasks s) item"
    and "e \<notin> id_field ` set (tasks s) \<longrightarrow> tasks (deleteTask e s) = tasks s"
  by (auto simp add: deleteTask_def count_list_filter filter_id_conv)

text \<open>
  C7. An update of \<open>e\<close> (the add button while \<^verbatim>\<open>if (taskBeingEdited)\<close> sees the edit target
  \<open>e\<close>, whatever the input field holds) and a toggle of \<open>e\<close> keep
  the length of the list and the ids in their order, and leave every task with another id
  as it is, at its position. A delete of \<open>e\<close> leaves a subsequence of the list: the tasks
  with the id \<open>e\<close> are gone and every task with another id stays, as many times as before
  and in the same relative order. Each of the three leaves the list as it is when no task
  has the id \<open>e\<close>.
\<close>

theorem update_toggle_delete_frame:
  "(edit_target s = Some e \<longrightarrow>
      length (tasks (addOrUpdateTask now s)) = length (tasks s) \<and>
      map id_field (tasks (addOrUpdateTask now s)) = map id_field (tasks s) \<and>
      (\<forall>i < length (tasks s). id_field (tasks s ! i) \<noteq> e \<longrightarrow>
         tasks (addOrUpdateTask now s) ! i = tasks s ! i) \<and>
      (e \<notin> id_field ` set (tasks s) \<longrightarrow> tasks (addOrUpdateTask now s) = tasks s)) \<and>
   (length (tasks (toggleTaskCompletion e s)) = length (tasks s) \<and>
      map id_field (tasks (toggleTaskCompletion e s)) = map id_field (tasks s) \<and>
      (\<forall>i < length (tasks s). id_field (tasks s ! i) \<noteq> e \<longrightarrow>
         tasks (toggleTaskCompletion e s) ! i = tasks s ! i) \<and>
      (e \<notin> id_field ` set (tasks s) \<longrightarrow> tasks (toggleTaskCompletion e s) = tasks s)) \<and>
   (subseq (tasks (deleteTask e s)) (tasks s) \<and>
      set (tasks (deleteTask e s)) = {item \<in> set (tasks s). id_field item \<noteq> e} \<and>
      (\<forall>item. id_field item \<noteq> e \<longrightarrow>
         count_list (tasks (deleteTask e s)) item = count_list (tasks s) item) \<and>
      (e \<notin> id_field ` set (tasks s) \<longrightarrow> tasks (deleteTask e s) = tasks s))"
  using update_frame [of s e now] toggle_frame [where e = e and s = s]
    delete_frame [where e = e and s = s]
  by blast

text \<open>
  The witness is the list [milk, eggs] with milk as the edit target and "buy bread" typed:
  the update and the toggle of milk leave eggs in the second place, and the delete of milk
  leaves [eggs].
\<close>

theorem update_toggle_delete_frame_witness:
  "edit_target two_tasks = Some (id_field milk) \<and>
   tasks (addOrUpdateTask 1700000000555 two_tasks) ! 1 = eggs \<and>
   length (tasks (addOrUpdateTask 1700000000555 two_tasks)) = 2 \<and>
   tasks (toggleTaskCompletion (id_field milk) two_tasks) ! 1 = eggs \<and>
   set (tasks (deleteTask (id_field milk) two_tasks)) = {eggs} \<and>
   tasks (deleteTask (js ''42'') two_tasks) = [milk, eggs]"
proof -
  have target: "edit_target two_tasks = Some (id_field milk)"
    by (simp add: edit_target_def two_tasks_def milk_def js_def)
  have other: "id_field eggs \<noteq> id_field milk" by (simp add: eggs_def milk_def js_def)
  have absent: "js ''42'' \<notin> id_field ` set (tasks two_tasks)"
    by (simp add: two_tasks_def eggs_def milk_def js_def)
  have ts: "tasks two_tasks = [milk, eggs]" by (simp add: two_tasks_def)
  have rest: "{item \<in> set [milk, eggs]. id_field item \<noteq> id_field milk} = {eggs}"
    using other by auto
  note frame = update_toggle_delete_frame [of two_tasks "id_field milk" 1700000000555]
  from frame target
  have u: "\<forall>i < length (tasks two_tasks). id_field (tasks two_tasks ! i) \<noteq> id_field milk \<longrightarrow>
             tasks (addOrUpdateTask 1700000000555 two_tasks) ! i = tasks two_tasks ! i"
    and ul: "length (tasks (addOrUpdateTask 1700000000555 two_tasks)) = length (tasks two_tasks)"
    by blast+
  from frame
  have t: "\<forall>i < length (tasks two_tasks). id_field (tasks two_tasks ! i) \<noteq> id_field milk \<longrightarrow>
             tasks (toggleTaskCompletion (id_field milk) two_tasks) ! i = tasks two_tasks ! i"
    and d: "set (tasks (deleteTask (id_field milk) two_tasks)) =
             {item \<in> set (tasks two_tasks). id_field item \<noteq> id_field milk}"
    by blast+
  have "tasks (addOrUpdateTask 1700000000555 two_tasks) ! 1 = eggs"
    using u [rule_format, of 1] other by (simp add: ts)
  moreover have "length (tasks (addOrUpdateTask 1700000000555 two_tasks)) = 2"
    using ul by (simp add: ts)
  moreover have "tasks (toggleTaskCompletion (id_field milk) two_tasks) ! 1 = eggs"
    using t [rule_format, of 1] other by (simp add: ts)
  moreover have "set (tasks (deleteTask (id_field milk) two_tasks)) = {eggs}"
    using d rest by (simp only: ts)
  moreover from update_toggle_delete_frame [of two_tasks "js ''42''" 0] absent
  have "tasks (deleteTask (js ''42'') two_tasks) = [milk, eggs]"
    using ts by metis
  ultimately show ?thesis using target by blast
qed

lemma toggle_twice_list:
  "map (\<lambda>item. if id_field item = e then item\<lparr>completed := \<not> completed item\<rparr> else item)
     (map (\<lambda>item. if id_field item = e then item\<lparr>completed := \<not> completed item\<rparr> else item) ts) = ts"
  by (induction ts) auto

text \<open>
  C8. Toggling the same id twice gives back the list, and with it the \<open>completed\<close> flag of
  every task, as it was before; the other two cells are not touched at all.
\<close>

theorem toggle_twice_restores:
  "toggleTaskCompletion taskId (toggleTaskCompletion taskId s) = s"
  by (simp add: toggleTaskCompletion_def toggle_twice_list del: map_map)

theorem toggle_twice_restores_witness:
  "tasks (toggleTaskCompletion (id_field milk) one_task) = [milk\<lparr>completed := True\<rparr>] \<and>
   toggleTaskCompletion (id_field milk) (toggleTaskCompletion (id_field milk) one_task) = one_task"
  using toggle_twice_restores [of "id_field milk" one_task]
  by (simp add: toggleTaskCompletion_def one_task_def milk_def)

text \<open>
  C9. Beginning to edit an id that no task of the list has changes nothing: not the edit
  target, not the input field, not the list.
\<close>

theorem startEditingTask_absent_noop:
  "taskId \<notin> id_field ` set (tasks s) \<Longrightarrow> startEditingTask taskId s = s"
proof -
  assume "taskId \<notin> id_field ` set (tasks s)"
  then have "find (\<lambda>item. id_field item = taskId) (tasks s) = None"
    by (auto simp: find_None_iff)
  then show ?thesis by (simp add: startEditingTask_def)
qed

theorem startEditingTask_absent_noop_witness:
  "js ''42'' \<notin> id_field ` set (tasks two_tasks) \<and> startEditingTask (js ''42'') two_tasks = two_tasks"
proof -
  have absent: "js ''42'' \<notin> id_field ` set (tasks two_tasks)"
    by (simp add: two_tasks_def eggs_def milk_def js_def)
  from startEditingTask_absent_noop [OF absent] absent show ?thesis by simp
qed


section \<open>The parser consumes its input\<close>

lemma length_skip_ws: "length (skip_ws s) \<le> length s"
  by (simp add: skip_ws_def length_dropWhile_le)

lemma skip_ws_Cons_shorter: "skip_ws s = c # cs \<Longrightarrow> length cs < length s"
  using length_skip_ws [of s] by simp

lemma cons_result_Some:
  "cons_result x r = Some (ys, rest) \<longleftrightarrow> (\<exists>xs. r = Some (xs, rest) \<and> ys = x # xs)"
  by (auto simp: cons_result_def split: option.splits)

lemma parse_chars_shorter: "parse_chars s = Some (x, r) \<Longrightarrow> length r < length s"
proof (induction s arbitrary: x r rule: length_induct)
  case (1 s)
  note IH = "1.IH" [rule_format]
  from "1.prems" show ?case
  proof (cases s)
    case Nil
    with "1.prems" show ?thesis by simp
  next
    case (Cons c cs)
    show ?thesis
    proof (cases "c = 0x0022")
      case True
      with Cons "1.prems" show ?thesis by simp
    next
      case nq: False
      show ?thesis
      proof (cases "c = 0x005C")
        case False
        with nq Cons "1.prems" obtain x' where "parse_chars cs = Some (x', r)"
          by (auto simp: cons_result_Some split: if_splits)
        from IH [OF _ this] Cons show ?thesis by simp
      next
        case True
        with nq Cons "1.prems" obtain e es where cs: "cs = e # es"
          by (cases cs) auto
        show ?thesis
        proof (cases "e = 0x0075")
          case False
          with True nq Cons cs "1.prems" obtain x' where "parse_chars es = Some (x', r)"
            by (auto simp: cons_result_Some split: if_splits option.splits)
          from IH [OF _ this] Cons cs show ?thesis by simp
        next
          case u: True
          with True nq Cons cs "1.prems" obtain h1 h2 h3 h4 rest x'
            where "es = h1 # h2 # h3 # h4 # rest" "parse_chars rest = Some (x', r)"
            by (auto simp: cons_result_Some split: if_splits option.splits list.splits)
          with IH [of rest x' r] Cons cs show ?thesis by simp
        qed
      qed
    qed
  qed
qed


lemma parse_digits_shorter: "parse_digits s = Some (x, r) \<Longrightarrow> length r < length s"
proof -
  assume "parse_digits s = Some (x, r)"
  then have ne: "takeWhile is_digit s \<noteq> []" and r: "r = dropWhile is_digit s"
    by (auto simp: parse_digits_def split: if_splits)
  have "length (takeWhile is_digit s) + length (dropWhile is_digit s) = length s"
    by (metis length_append takeWhile_dropWhile_id)
  with ne r show ?thesis by (cases "takeWhile is_digit s") auto
qed

lemma parse_digits_le: "parse_digits s = Some (x, r) \<Longrightarrow> length r \<le> length s"
  using parse_digits_shorter [of s x r] by simp

lemma parse_int_part_shorter: "parse_int_part s = Some (x, r) \<Longrightarrow> length r < length s"
  by (auto simp: parse_int_part_def split: list.splits if_splits dest: parse_digits_shorter)

lemma parse_fraction_le: "parse_fraction s = Some (x, r) \<Longrightarrow> length r \<le> length s"
  by (auto simp: parse_fraction_def split: list.splits if_splits option.splits dest: parse_digits_le)

lemma parse_exponent_le: "parse_exponent s = Some (x, r) \<Longrightarrow> length r \<le> length s"
  by (auto simp: parse_exponent_def split: list.splits if_splits option.splits dest: parse_digits_le)

lemma parse_unsigned_shorter: "parse_unsigned s = Some (x, r) \<Longrightarrow> length r < length s"
proof -
  assume "parse_unsigned s = Some (x, r)"
  then obtain i r1 f r2 e where "parse_int_part s = Some (i, r1)" "parse_fraction r1 = Some (f, r2)"
    "parse_exponent r2 = Some (e, r)"
    by (auto simp: parse_unsigned_def split: option.splits)
  then show ?thesis
    using parse_int_part_shorter [of s i r1] parse_fraction_le [of r1 f r2] parse_exponent_le [of r2 e r]
    by simp
qed

lemma parse_number_shorter: "parse_number s = Some (x, r) \<Longrightarrow> length r < length s"
  by (auto simp: parse_number_def split: list.splits if_splits option.splits dest: parse_unsigned_shorter)

lemma parse_literal_shorter:
  "word \<noteq> [] \<Longrightarrow> parse_literal word v s = Some (x, r) \<Longrightarrow> length r < length s"
proof -
  assume w: "word \<noteq> []" and "parse_literal word v s = Some (x, r)"
  then have t: "take (length word) s = word" and r: "r = drop (length word) s"
    by (auto simp: parse_literal_def split: if_splits)
  from t w have "s \<noteq> []" by auto
  with w r show ?thesis by simp
qed

lemma parse_shorter:
  shows parse_value_shorter: "\<And>v r. parse_value s = Some (v, r) \<Longrightarrow> length r < length s"
    and parse_elements_shorter: "\<And>vs r. parse_elements s1 = Some (vs, r) \<Longrightarrow> length r < length s1"
    and parse_members_shorter: "\<And>kvs r. parse_members s2 = Some (kvs, r) \<Longrightarrow> length r < length s2"
proof (induction s and s1 and s2 rule: parse_value_parse_elements_parse_members.induct)
  case (1 s)
  from "1.prems" obtain c cs where sk: "skip_ws s = c # cs"
    by (cases "skip_ws s") (auto simp: parse_value.simps [of s])
  then have cs: "length cs < length s" by (rule skip_ws_Cons_shorter)
  have le: "length (c # cs) \<le> length s" using length_skip_ws [of s] sk by simp
  consider (obj) "c = 0x007B" | (arr) "c \<noteq> 0x007B" "c = 0x005B" | (str) "c \<noteq> 0x007B" "c \<noteq> 0x005B" "c = 0x0022"
    | (lit) "c \<noteq> 0x007B" "c \<noteq> 0x005B" "c \<noteq> 0x0022" "c = 0x0074 \<or> c = 0x0066 \<or> c = 0x006E"
    | (num) "c \<noteq> 0x007B" "c \<noteq> 0x005B" "c \<noteq> 0x0022" "c \<noteq> 0x0074" "c \<noteq> 0x0066" "c \<noteq> 0x006E"
    by blast
  then show ?case
  proof cases
    case obj
    from "1.prems" sk obj obtain d ds where sk2: "skip_ws cs = d # ds"
      by (cases "skip_ws cs") (auto simp: parse_value.simps [of s])
    show ?thesis
    proof (cases "d = 0x007D")
      case True
      with "1.prems" sk obj sk2 have "r = ds" by (simp add: parse_value.simps [of s])
      with skip_ws_Cons_shorter [OF sk2] cs show ?thesis by simp
    next
      case False
      with "1.prems" sk obj sk2 cs obtain kvs where "parse_members cs = Some (kvs, r)"
        by (auto simp: parse_value.simps [of s] split: option.splits)
      from "1.IH"(1) [OF sk obj sk2 False cs this] cs show ?thesis by simp
    qed
  next
    case arr
    from "1.prems" sk arr obtain d ds where sk2: "skip_ws cs = d # ds"
      by (cases "skip_ws cs") (auto simp: parse_value.simps [of s])
    show ?thesis
    proof (cases "d = 0x005D")
      case True
      with "1.prems" sk arr sk2 have "r = ds" by (simp add: parse_value.simps [of s])
      with skip_ws_Cons_shorter [OF sk2] cs show ?thesis by simp
    next
      case False
      with "1.prems" sk arr sk2 cs obtain vs where "parse_elements cs = Some (vs, r)"
        by (auto simp: parse_value.simps [of s] split: option.splits)
      from "1.IH"(2) [OF sk arr(1) arr(2) sk2 False cs this] cs show ?thesis by simp
    qed
  next
    case str
    with "1.prems" sk obtain x where "parse_chars cs = Some (x, r)"
      by (auto simp: parse_value.simps [of s] split: option.splits)
    from parse_chars_shorter [OF this] cs show ?thesis by simp
  next
    case lit
    with "1.prems" sk obtain word v' where "word \<noteq> []" "parse_literal word v' (c # cs) = Some (v, r)"
      by (auto simp: parse_value.simps [of s] js_def split: if_splits)
    from parse_literal_shorter [OF this] le show ?thesis by simp
  next
    case num
    with "1.prems" sk obtain n where "parse_number (c # cs) = Some (n, r)"
      by (auto simp: parse_value.simps [of s] split: option.splits)
    from parse_number_shorter [OF this] le show ?thesis by simp
  qed
next
  case (2 s)
  from "2.prems" obtain v r1 where pv: "parse_value s = Some (v, r1)"
    by (auto simp: parse_elements.simps [of s] split: option.splits)
  from "2.IH"(1) [OF pv] have r1: "length r1 < length s" .
  from "2.prems" pv obtain c cs where sk: "skip_ws r1 = c # cs"
    by (cases "skip_ws r1") (auto simp: parse_elements.simps [of s])
  from skip_ws_Cons_shorter [OF sk] r1 have cs: "length cs < length s" by simp
  show ?case
  proof (cases "c = 0x002C")
    case True
    with "2.prems" pv sk cs obtain vs' where pe: "parse_elements cs = Some (vs', r)"
      by (auto simp: parse_elements.simps [of s] cons_result_Some)
    from "2.IH"(2) [OF pv refl sk True cs pe] cs show ?thesis by simp
  next
    case False
    with "2.prems" pv sk have "r = cs"
      by (auto simp: parse_elements.simps [of s] split: if_splits)
    with cs show ?thesis by simp
  qed
next
  case (3 s)
  from "3.prems" obtain q qs where sk: "skip_ws s = q # qs"
    by (cases "skip_ws s") (auto simp: parse_members.simps [of s])
  from "3.prems" sk have q: "q = 0x0022"
    by (auto simp: parse_members.simps [of s] split: if_splits)
  from "3.prems" sk q obtain k r1 where pc: "parse_chars qs = Some (k, r1)"
    by (auto simp: parse_members.simps [of s] split: option.splits)
  from "3.prems" sk q pc obtain c r2 where sk1: "skip_ws r1 = c # r2"
    by (cases "skip_ws r1") (auto simp: parse_members.simps [of s])
  from "3.prems" sk q pc sk1 have c: "c = 0x003A" and r2: "length r2 < length s"
    by (auto simp: parse_members.simps [of s] split: if_splits)
  from "3.prems" sk q pc sk1 c r2 obtain v r3 where pv: "parse_value r2 = Some (v, r3)"
    by (auto simp: parse_members.simps [of s] split: option.splits)
  from "3.prems" sk q pc sk1 c r2 pv obtain d r4 where sk3: "skip_ws r3 = d # r4"
    by (cases "skip_ws r3") (auto simp: parse_members.simps [of s])
  have cr2: "c = 0x003A \<and> length r2 < length s" using c r2 by simp
  from "3.IH"(1) [OF sk q pc refl sk1 cr2 pv] have "length r3 < length r2" .
  with skip_ws_Cons_shorter [OF sk3] r2 have r4: "length r4 < length s" by simp
  show ?case
  proof (cases "d = 0x002C")
    case True
    with "3.prems" sk q pc sk1 c r2 pv sk3 r4 obtain kvs' where pm: "parse_members r4 = Some (kvs', r)"
      by (auto simp: parse_members.simps [of s] cons_result_Some)
    from "3.IH"(2) [OF sk q pc refl sk1 cr2 pv refl sk3 True r4 pm] r4
    show ?thesis by simp
  next
    case False
    with "3.prems" sk q pc sk1 c r2 pv sk3 have "r = r4"
      by (auto simp: parse_members.simps [of s] split: if_splits)
    with r4 show ?thesis by simp
  qed
qed

section \<open>A quoted string is read back\<close>

lemma unat_hex_digit: "d < 16 \<Longrightarrow> unat (hex_digit d) = (if d < 10 then 48 + d else 87 + d)"
  by (simp add: hex_digit_def unat_word_ariths unat_of_nat)

lemma hex_value_hex_digit: "d < 16 \<Longrightarrow> hex_value (hex_digit d) = Some d"
  by (simp add: hex_value_def word_le_nat_alt unat_hex_digit)

lemma hex_split:
  "((n div 4096 * 16 + n div 256 mod 16) * 16 + n div 16 mod 16) * 16 + n mod 16 = (n::nat)"
proof -
  have a: "n div 256 = n div 16 div 16" by (simp add: div_mult2_eq)
  have b: "n div 4096 = n div 16 div 16 div 16" by (simp add: div_mult2_eq)
  show ?thesis unfolding a b
    by (metis (no_types) div_mult_mod_eq mult.commute)
qed

lemma hex4_value_UnicodeEscape:
  "hex4_value (hex_digit (unat c div 4096)) (hex_digit (unat c div 256 mod 16))
     (hex_digit (unat c div 16 mod 16)) (hex_digit (unat c mod 16)) = Some c"
proof -
  have "unat c < 65536" using unsigned_less [of c, where 'a = nat] by simp
  then have 1: "unat c div 4096 < 16" by simp
  have 2: "unat c div 256 mod 16 < 16" "unat c div 16 mod 16 < 16" "unat c mod 16 < 16" by simp_all
  have 3: "(word_of_nat (((unat c div 4096 * 16 + unat c div 256 mod 16) * 16 + unat c div 16 mod 16) * 16
            + unat c mod 16) :: code_unit) = c"
    by (simp only: hex_split) simp
  show ?thesis
    by (simp only: hex4_value_def hex_value_hex_digit [OF 1] hex_value_hex_digit [OF 2(1)]
        hex_value_hex_digit [OF 2(2)] hex_value_hex_digit [OF 2(3)] 3 option.case prod.case)
qed


lemma parse_chars_UnicodeEscape: "parse_chars (UnicodeEscape c @ tail) = cons_result c (parse_chars tail)"
  by (simp add: UnicodeEscape_def hex4_value_UnicodeEscape)


lemma parse_chars_verbatim:
  "c \<noteq> 0x0022 \<Longrightarrow> c \<noteq> 0x005C \<Longrightarrow> \<not> c < 0x0020 \<Longrightarrow>
   parse_chars (c # tail) = cons_result c (parse_chars tail)"
  by simp

lemma parse_chars_escape:
  "e \<noteq> 0x0075 \<Longrightarrow> escape_value e = Some u \<Longrightarrow>
   parse_chars (0x005C # e # tail) = cons_result u (parse_chars tail)"
  by simp

lemma parse_chars_quote_unit: "parse_chars (quote_unit c @ tail) = cons_result c (parse_chars tail)"
proof -
  consider (b) "c = 0x0008" | (t) "c = 0x0009" | (n) "c = 0x000A" | (f) "c = 0x000C" | (r) "c = 0x000D"
    | (q) "c = 0x0022" | (s) "c = 0x005C"
    | (u) "c \<noteq> 0x0008" "c \<noteq> 0x0009" "c \<noteq> 0x000A" "c \<noteq> 0x000C" "c \<noteq> 0x000D" "c \<noteq> 0x0022"
          "c \<noteq> 0x005C" "c < 0x0020 \<or> is_leading_surrogate c \<or> is_trailing_surrogate c"
    | (v) "c \<noteq> 0x0008" "c \<noteq> 0x0009" "c \<noteq> 0x000A" "c \<noteq> 0x000C" "c \<noteq> 0x000D" "c \<noteq> 0x0022"
          "c \<noteq> 0x005C" "\<not> (c < 0x0020 \<or> is_leading_surrogate c \<or> is_trailing_surrogate c)"
    by blast
  then show ?thesis
  proof cases
    case b
    then show ?thesis by (simp add: quote_unit_def escape_value_def)
  next
    case t
    then show ?thesis by (simp add: quote_unit_def escape_value_def)
  next
    case n
    then show ?thesis by (simp add: quote_unit_def escape_value_def)
  next
    case f
    then show ?thesis by (simp add: quote_unit_def escape_value_def)
  next
    case r
    then show ?thesis by (simp add: quote_unit_def escape_value_def)
  next
    case q
    then show ?thesis by (simp add: quote_unit_def escape_value_def)
  next
    case s
    then show ?thesis by (simp add: quote_unit_def escape_value_def)
  next
    case u
    then have "quote_unit c = UnicodeEscape c" by (simp add: quote_unit_def)
    then show ?thesis by (simp only: parse_chars_UnicodeEscape)
  next
    case v
    then have eq: "quote_unit c = [c]" by (simp add: quote_unit_def)
    from v(8) have "\<not> c < 0x0020" by blast
    from parse_chars_verbatim [OF v(6) v(7) this] show ?thesis
      by (simp only: eq append_Cons append_Nil)
  qed
qed


lemma parse_chars_surrogate:
  "is_leading_surrogate c \<or> is_trailing_surrogate c \<Longrightarrow>
   parse_chars (c # tail) = cons_result c (parse_chars tail)"
proof -
  assume "is_leading_surrogate c \<or> is_trailing_surrogate c"
  then have "0xD800 \<le> c"
    by (auto simp: is_leading_surrogate_def is_trailing_surrogate_def word_le_nat_alt)
  then have "c \<noteq> 0x0022" "c \<noteq> 0x005C" "\<not> c < 0x0020"
    by (auto simp: word_le_nat_alt word_less_nat_alt)
  then show ?thesis by (rule parse_chars_verbatim)
qed

lemma parse_chars_quote: "parse_chars (0x0022 # rest) = Some ([], rest)"
  by simp

lemma parse_chars_quote_units: "parse_chars (quote_units s @ 0x0022 # rest) = Some (s, rest)"
proof (induction s rule: quote_units.induct)
  case 1
  show ?case by simp
next
  case (2 c)
  have "parse_chars (quote_unit c @ 0x0022 # rest) = Some ([c], rest)"
    by (simp only: parse_chars_quote_unit parse_chars_quote cons_result_def option.case prod.case)
  then show ?case by simp
next
  case (3 c d cs)
  show ?case
  proof (cases "is_leading_surrogate c \<and> is_trailing_surrogate d")
    case True
    then have eq: "quote_units (c # d # cs) @ 0x0022 # rest = c # d # (quote_units cs @ 0x0022 # rest)"
      by simp
    from True 3(1) have IH: "parse_chars (quote_units cs @ 0x0022 # rest) = Some (cs, rest)" by simp
    from True have c: "is_leading_surrogate c \<or> is_trailing_surrogate c"
      and d: "is_leading_surrogate d \<or> is_trailing_surrogate d" by simp_all
    show ?thesis
      by (simp only: eq parse_chars_surrogate [OF c] parse_chars_surrogate [OF d] IH
          cons_result_def option.case prod.case)
  next
    case False
    then have eq: "quote_units (c # d # cs) @ 0x0022 # rest =
        quote_unit c @ (quote_units (d # cs) @ 0x0022 # rest)"
      by (simp only: quote_units.simps if_False append_assoc)
    from False 3(2) have IH: "parse_chars (quote_units (d # cs) @ 0x0022 # rest) = Some (d # cs, rest)"
      by simp
    show ?thesis
      by (simp only: eq parse_chars_quote_unit IH cons_result_def option.case prod.case)
  qed
qed

lemma parse_chars_QuoteJSONString:
  "QuoteJSONString s @ rest = 0x0022 # tail \<Longrightarrow> parse_chars tail = Some (s, rest)"
  by (auto simp add: QuoteJSONString_def parse_chars_quote_units simp del: parse_chars.simps)

section \<open>A serialized task list is read back\<close>

lemma skip_ws_start: "\<not> is_json_whitespace c \<Longrightarrow> skip_ws (c # cs) = c # cs"
  by (simp add: skip_ws_def)

lemma not_ws_punct:
  "\<not> is_json_whitespace 0x0022" "\<not> is_json_whitespace 0x007B" "\<not> is_json_whitespace 0x007D"
  "\<not> is_json_whitespace 0x005B" "\<not> is_json_whitespace 0x005D" "\<not> is_json_whitespace 0x002C"
  "\<not> is_json_whitespace 0x003A" "\<not> is_json_whitespace 0x0074" "\<not> is_json_whitespace 0x0066"
  by (simp_all add: is_json_whitespace_def)

lemma parse_value_string:
  "parse_value (0x0022 # cs) =
     (case parse_chars cs of None \<Rightarrow> None | Some (str, rest) \<Rightarrow> Some (JString str, rest))"
  by (simp add: parse_value.simps [of "0x0022 # cs"] skip_ws_start not_ws_punct)

lemma parse_value_true: "parse_value (js ''true'' @ rest) = Some (JBool True, rest)"
proof -
  have eq: "js ''true'' @ rest = 0x0074 # 0x0072 # 0x0075 # 0x0065 # rest" by (simp add: js_def)
  show ?thesis unfolding eq
    by (simp add: parse_value.simps [of "0x0074 # 0x0072 # 0x0075 # 0x0065 # rest"] js_def
        skip_ws_start not_ws_punct parse_literal_def)
qed

lemma parse_value_false: "parse_value (js ''false'' @ rest) = Some (JBool False, rest)"
proof -
  have eq: "js ''false'' @ rest = 0x0066 # 0x0061 # 0x006C # 0x0073 # 0x0065 # rest"
    by (simp add: js_def)
  show ?thesis unfolding eq
    by (simp add: parse_value.simps [of "0x0066 # 0x0061 # 0x006C # 0x0073 # 0x0065 # rest"] js_def
        skip_ws_start not_ws_punct parse_literal_def)
qed

lemma parse_value_object:
  "\<not> is_json_whitespace d \<Longrightarrow> d \<noteq> 0x007D \<Longrightarrow>
   parse_value (0x007B # d # ds) =
     (case parse_members (d # ds) of
        None \<Rightarrow> None
      | Some (kvs, rest) \<Rightarrow> Some (object_of_members kvs, rest))"
  by (simp add: parse_value.simps [of "0x007B # d # ds"] skip_ws_start not_ws_punct)

lemma parse_value_array:
  "\<not> is_json_whitespace d \<Longrightarrow> d \<noteq> 0x005D \<Longrightarrow>
   parse_value (0x005B # d # ds) =
     (case parse_elements (d # ds) of
        None \<Rightarrow> None
      | Some (vs, rest) \<Rightarrow> Some (JArray vs, rest))"
  by (simp add: parse_value.simps [of "0x005B # d # ds"] skip_ws_start not_ws_punct)

lemma parse_value_empty_array: "parse_value (0x005B # 0x005D # rest) = Some (JArray [], rest)"
  by (simp add: parse_value.simps [of "0x005B # 0x005D # rest"] skip_ws_start not_ws_punct)

lemma parse_elements_more:
  assumes "parse_value s = Some (v, 0x002C # cs)"
  shows "parse_elements s = cons_result v (parse_elements cs)"
proof -
  from parse_value_shorter [OF assms] have "length cs < length s" by simp
  with assms show ?thesis
    by (simp add: parse_elements.simps [of s] skip_ws_start not_ws_punct)
qed

lemma parse_elements_last:
  assumes "parse_value s = Some (v, 0x005D # cs)"
  shows "parse_elements s = Some ([v], cs)"
  using assms by (simp add: parse_elements.simps [of s] skip_ws_start not_ws_punct)

lemma parse_members_more:
  assumes "parse_chars qs = Some (k, 0x003A # r2)" and "parse_value r2 = Some (v, 0x002C # r4)"
  shows "parse_members (0x0022 # qs) = cons_result (k, v) (parse_members r4)"
proof -
  from parse_chars_shorter [OF assms(1)] have 1: "length r2 < length (0x0022 # qs)" by simp
  from parse_value_shorter [OF assms(2)] 1 have 2: "length r4 < length (0x0022 # qs)" by simp
  from assms 1 2 show ?thesis
    by (simp add: parse_members.simps [of "0x0022 # qs"] skip_ws_start not_ws_punct)
qed

lemma parse_members_last:
  assumes "parse_chars qs = Some (k, 0x003A # r2)" and "parse_value r2 = Some (v, 0x007D # r4)"
  shows "parse_members (0x0022 # qs) = Some ([(k, v)], r4)"
proof -
  from parse_chars_shorter [OF assms(1)] have 1: "length r2 < length (0x0022 # qs)" by simp
  from assms 1 show ?thesis
    by (simp add: parse_members.simps [of "0x0022 # qs"] skip_ws_start not_ws_punct)
qed


lemma object_of_task_members:
  "object_of_members [(js ''id'', JString i), (js ''text'', JString t), (js ''completed'', JBool c)] =
   JObject [(js ''id'', JString i), (js ''text'', JString t), (js ''completed'', JBool c)]"
  by (simp add: object_of_members_def js_def)

lemma parse_value_stringify_task:
  "parse_value (stringify_task t @ rest) = Some (json_of_task t, rest)"
proof -
  define lit where "lit = (if completed t then js ''true'' else js ''false'')"
  define m3 where "m3 = quote_units (js ''completed'') @ 0x0022 # 0x003A # lit @ 0x007D # rest"
  define m2 where "m2 = quote_units (js ''text'') @ 0x0022 # 0x003A # 0x0022 #
      quote_units (text_field t) @ 0x0022 # 0x002C # 0x0022 # m3"
  define m1 where "m1 = quote_units (js ''id'') @ 0x0022 # 0x003A # 0x0022 #
      quote_units (id_field t) @ 0x0022 # 0x002C # 0x0022 # m2"
  have whole: "stringify_task t @ rest = 0x007B # 0x0022 # m1"
    by (simp add: stringify_task_def QuoteJSONString_def m1_def m2_def m3_def lit_def)
  have v3: "parse_value (lit @ 0x007D # rest) = Some (JBool (completed t), 0x007D # rest)"
    by (simp add: lit_def parse_value_true parse_value_false)
  have p3: "parse_members (0x0022 # m3) = Some ([(js ''completed'', JBool (completed t))], rest)"
    unfolding m3_def by (rule parse_members_last [OF parse_chars_quote_units v3])
  have v2: "parse_value (0x0022 # quote_units (text_field t) @ 0x0022 # 0x002C # 0x0022 # m3) =
      Some (JString (text_field t), 0x002C # 0x0022 # m3)"
    by (simp only: parse_value_string parse_chars_quote_units option.case prod.case)
  have p2: "parse_members (0x0022 # m2) =
      Some ([(js ''text'', JString (text_field t)), (js ''completed'', JBool (completed t))], rest)"
    unfolding m2_def
    by (simp only: parse_members_more [OF parse_chars_quote_units v2] p3 cons_result_def
        option.case prod.case)
  have v1: "parse_value (0x0022 # quote_units (id_field t) @ 0x0022 # 0x002C # 0x0022 # m2) =
      Some (JString (id_field t), 0x002C # 0x0022 # m2)"
    by (simp only: parse_value_string parse_chars_quote_units option.case prod.case)
  have p1: "parse_members (0x0022 # m1) =
      Some ([(js ''id'', JString (id_field t)), (js ''text'', JString (text_field t)),
             (js ''completed'', JBool (completed t))], rest)"
    unfolding m1_def
    by (simp only: parse_members_more [OF parse_chars_quote_units v1] p2 cons_result_def
        option.case prod.case)
  have "parse_value (0x007B # 0x0022 # m1) =
      (case parse_members (0x0022 # m1) of
         None \<Rightarrow> None
       | Some (kvs, rest) \<Rightarrow> Some (object_of_members kvs, rest))"
    by (rule parse_value_object) (simp_all add: is_json_whitespace_def)
  then have "parse_value (0x007B # 0x0022 # m1) = Some (json_of_task t, rest)"
    by (simp only: p1 object_of_task_members json_of_task_def option.case prod.case)
  with whole show ?thesis by simp
qed

lemma stringify_task_start: "\<exists>tail. stringify_task t @ rest = 0x007B # tail"
  by (simp add: stringify_task_def)

lemma parse_elements_stringify:
  "parse_elements (join_comma (map stringify_task (t # ts)) @ 0x005D # rest) =
   Some (map json_of_task (t # ts), rest)"
proof (induction ts arbitrary: t)
  case Nil
  have "parse_elements (stringify_task t @ 0x005D # rest) = Some ([json_of_task t], rest)"
    by (rule parse_elements_last [OF parse_value_stringify_task])
  then show ?case by simp
next
  case (Cons u us)
  let ?tail = "join_comma (map stringify_task (u # us)) @ 0x005D # rest"
  have eq: "join_comma (map stringify_task (t # u # us)) @ 0x005D # rest =
      stringify_task t @ 0x002C # ?tail"
    by simp
  have "parse_elements (stringify_task t @ 0x002C # ?tail) = cons_result (json_of_task t) (parse_elements ?tail)"
    by (rule parse_elements_more [OF parse_value_stringify_task])
  also have "\<dots> = Some (json_of_task t # map json_of_task (u # us), rest)"
    by (simp only: Cons.IH cons_result_def option.case prod.case)
  finally show ?case by simp
qed

lemma JSON_parse_stringify: "JSON_parse (JSON_stringify ts) = Some (JArray (map json_of_task ts))"
proof (cases ts)
  case Nil
  then show ?thesis
    by (simp add: JSON_parse_def JSON_stringify_def parse_value_empty_array skip_ws_def)
next
  case (Cons t us)
  obtain tail where tail: "join_comma (map stringify_task (t # us)) @ [0x005D] = 0x007B # tail"
    by (cases us) (auto simp: stringify_task_def)
  have "parse_elements (0x007B # tail) = Some (map json_of_task (t # us), [])"
    using parse_elements_stringify [of t us "[]"] tail by simp
  moreover have "parse_value (0x005B # 0x007B # tail) =
      (case parse_elements (0x007B # tail) of
         None \<Rightarrow> None
       | Some (vs, rest) \<Rightarrow> Some (JArray vs, rest))"
    by (rule parse_value_array) (simp_all add: is_json_whitespace_def)
  ultimately have "parse_value (0x005B # 0x007B # tail) = Some (JArray (map json_of_task (t # us)), [])"
    by (simp only: option.case prod.case)
  then show ?thesis
    using tail Cons by (simp add: JSON_parse_def JSON_stringify_def skip_ws_def)
qed

lemma task_of_json_of_task: "task_of_json (json_of_task t) = Some t"
  by (simp add: task_of_json_def json_of_task_def js_def)

lemma tasks_of_elements_map: "tasks_of_elements (map json_of_task ts) = Some ts"
  by (induction ts) (simp_all add: task_of_json_of_task)

section \<open>The parser without the length tests\<close>

lemma parse_value_unguarded:
  "parse_value s =
     (case skip_ws s of
        [] \<Rightarrow> None
      | c # cs \<Rightarrow>
          if c = 0x007B then
            (case skip_ws cs of
               [] \<Rightarrow> None
             | d # ds \<Rightarrow>
                 if d = 0x007D then Some (JObject [], ds)
                 else
                   (case parse_members cs of
                      None \<Rightarrow> None
                    | Some (kvs, rest) \<Rightarrow> Some (object_of_members kvs, rest)))
          else if c = 0x005B then
            (case skip_ws cs of
               [] \<Rightarrow> None
             | d # ds \<Rightarrow>
                 if d = 0x005D then Some (JArray [], ds)
                 else
                   (case parse_elements cs of
                      None \<Rightarrow> None
                    | Some (vs, rest) \<Rightarrow> Some (JArray vs, rest)))
          else if c = 0x0022 then
            (case parse_chars cs of
               None \<Rightarrow> None
             | Some (str, rest) \<Rightarrow> Some (JString str, rest))
          else if c = 0x0074 then parse_literal (js ''true'') (JBool True) (c # cs)
          else if c = 0x0066 then parse_literal (js ''false'') (JBool False) (c # cs)
          else if c = 0x006E then parse_literal (js ''null'') JNull (c # cs)
          else
            (case parse_number (c # cs) of
               None \<Rightarrow> None
             | Some (n, rest) \<Rightarrow> Some (JNumber n, rest)))"
proof (cases "skip_ws s")
  case Nil
  then show ?thesis by (simp add: parse_value.simps [of s])
next
  case (Cons c cs)
  from skip_ws_Cons_shorter [OF Cons] have "length cs < length s" .
  with Cons show ?thesis by (simp add: parse_value.simps [of s])
qed

lemma parse_elements_unguarded:
  "parse_elements s =
     (case parse_value s of
        None \<Rightarrow> None
      | Some (v, r) \<Rightarrow>
          (case skip_ws r of
             [] \<Rightarrow> None
           | c # cs \<Rightarrow>
               if c = 0x002C then cons_result v (parse_elements cs)
               else if c = 0x005D then Some ([v], cs)
               else None))"
proof (cases "parse_value s")
  case None
  then show ?thesis by (simp add: parse_elements.simps [of s])
next
  case (Some p)
  obtain v r where p: "p = (v, r)" by (cases p)
  from parse_value_shorter [of s v r] Some p have r: "length r < length s" by simp
  show ?thesis
  proof (cases "skip_ws r")
    case Nil
    with Some p show ?thesis by (simp add: parse_elements.simps [of s])
  next
    case (Cons c cs)
    from skip_ws_Cons_shorter [OF Cons] r have "length cs < length s" by simp
    with Some p Cons show ?thesis by (simp add: parse_elements.simps [of s])
  qed
qed

lemma parse_members_unguarded:
  "parse_members s =
     (case skip_ws s of
        [] \<Rightarrow> None
      | q # qs \<Rightarrow>
          if q = 0x0022 then
            (case parse_chars qs of
               None \<Rightarrow> None
             | Some (k, r1) \<Rightarrow>
                 (case skip_ws r1 of
                    [] \<Rightarrow> None
                  | c # r2 \<Rightarrow>
                      if c = 0x003A then
                        (case parse_value r2 of
                           None \<Rightarrow> None
                         | Some (v, r3) \<Rightarrow>
                             (case skip_ws r3 of
                                [] \<Rightarrow> None
                              | d # r4 \<Rightarrow>
                                  if d = 0x002C then cons_result (k, v) (parse_members r4)
                                  else if d = 0x007D then Some ([(k, v)], r4)
                                  else None))
                      else None))
          else None)"
proof (cases "skip_ws s")
  case Nil
  then show ?thesis by (simp add: parse_members.simps [of s])
next
  case sk: (Cons q qs)
  from skip_ws_Cons_shorter [OF sk] have qs: "length qs < length s" .
  show ?thesis
  proof (cases "parse_chars qs")
    case None
    with sk show ?thesis by (simp add: parse_members.simps [of s])
  next
    case (Some p)
    obtain k r1 where p: "p = (k, r1)" by (cases p)
    from parse_chars_shorter [of qs k r1] Some p qs have r1: "length r1 < length s" by simp
    show ?thesis
    proof (cases "skip_ws r1")
      case Nil
      with sk Some p show ?thesis by (simp add: parse_members.simps [of s])
    next
      case sk1: (Cons c r2)
      from skip_ws_Cons_shorter [OF sk1] r1 have r2: "length r2 < length s" by simp
      show ?thesis
      proof (cases "parse_value r2")
        case None
        with sk Some p sk1 r2 show ?thesis by (simp add: parse_members.simps [of s])
      next
        case pv: (Some p')
        obtain v r3 where p': "p' = (v, r3)" by (cases p')
        from parse_value_shorter [of r2 v r3] pv p' r2 have r3: "length r3 < length s" by simp
        show ?thesis
        proof (cases "skip_ws r3")
          case Nil
          with sk Some p sk1 r2 pv p' show ?thesis by (simp add: parse_members.simps [of s])
        next
          case sk3: (Cons d r4)
          from skip_ws_Cons_shorter [OF sk3] r3 have "length r4 < length s" by simp
          with sk Some p sk1 r2 pv p' sk3 show ?thesis by (simp add: parse_members.simps [of s])
        qed
      qed
    qed
  qed
qed

section \<open>Round trip and loading\<close>

text \<open>
  C5. Serializing a task list and parsing the text back gives the same list: the parsed
  value, read at the type of the list, has the same tasks with the same ids, texts and
  \<open>completed\<close> flags in the same order. So \<^verbatim>\<open>loadTasks\<close> installs that list when the
  storage returns what \<^verbatim>\<open>saveTasks\<close> wrote.
\<close>

theorem stringify_parse_roundtrip:
  "JSON_parse (JSON_stringify ts) = Some (JArray (map json_of_task ts)) \<and>
   tasks_of_json (JArray (map json_of_task ts)) = Some ts \<and>
   Option.bind (JSON_parse (JSON_stringify ts)) tasks_of_json = Some ts \<and>
   loadTasks (Resolved (Some (saveTasks ts))) = SetTasks (JArray (map json_of_task ts))"
proof -
  have 1: "tasks_of_json (JArray (map json_of_task ts)) = Some ts"
    by (simp add: tasks_of_json_def tasks_of_elements_map)
  have 2: "JSON_stringify ts \<noteq> []" by (simp add: JSON_stringify_def)
  from 2 have "loadTasks (Resolved (Some (saveTasks ts))) = SetTasks (JArray (map json_of_task ts))"
    by (simp add: loadTasks_def saveTasks_def JSON_parse_stringify)
  with 1 show ?thesis by (simp add: JSON_parse_stringify)
qed

theorem stringify_parse_roundtrip_witness:
  \<open>JSON_stringify [milk, eggs] =
     js ''[{"id":"1700000000000","text":"buy milk","completed":false},{"id":"1700000000007","text":"buy eggs","completed":true}]'' \<and>
   Option.bind (JSON_parse (JSON_stringify [milk, eggs])) tasks_of_json = Some [milk, eggs]\<close>
proof -
  have \<open>JSON_stringify [milk, eggs] =
     js ''[{"id":"1700000000000","text":"buy milk","completed":false},{"id":"1700000000007","text":"buy eggs","completed":true}]''\<close>
    by code_simp
  with stringify_parse_roundtrip [of "[milk, eggs]"] show ?thesis by simp
qed

text \<open>
  C2 (as amended). When the stored value is a non-empty string that is not a JSON text
  (\<^verbatim>\<open>JSON.parse\<close> throws), \<^verbatim>\<open>loadTasks\<close> catches and logs the error and calls no
  \<^verbatim>\<open>setTasks\<close>: the list stays as it is, which at startup is the empty list of the initial
  state. A rejected read is caught and logged in the same way, and when nothing or the
  empty string is stored nothing happens at all. A stored JSON text is installed as it
  parses, whatever its shape: there is no check against the schema of the task list.
\<close>

theorem load_unparsable_leaves_empty:
  "(s \<noteq> [] \<and> JSON_parse s = None \<longrightarrow>
      loadTasks (Resolved (Some s)) = ErrorLogged \<and>
      cell_after_load (loadTasks (Resolved (Some s))) cell = cell \<and>
      cell_after_load (loadTasks (Resolved (Some s))) (tasks_cell initial_state) = JArray []) \<and>
   (s \<noteq> [] \<and> JSON_parse s = Some v \<longrightarrow>
      loadTasks (Resolved (Some s)) = SetTasks v \<and>
      cell_after_load (loadTasks (Resolved (Some s))) cell = v) \<and>
   loadTasks Rejected = ErrorLogged \<and> cell_after_load (loadTasks Rejected) cell = cell \<and>
   loadTasks (Resolved None) = NothingStored \<and>
   cell_after_load (loadTasks (Resolved None)) cell = cell \<and>
   loadTasks (Resolved (Some [])) = NothingStored \<and>
   cell_after_load (loadTasks (Resolved (Some []))) cell = cell"
proof -
  have start: "tasks_cell initial_state = JArray []"
    by (simp add: tasks_cell_def initial_state_def)
  show ?thesis
    by (simp add: loadTasks_def cell_after_load_def start)
qed

theorem load_unparsable_leaves_empty_witness:
  "cut_short \<noteq> [] \<and> JSON_parse cut_short = None \<and>
   loadTasks (Resolved (Some cut_short)) = ErrorLogged \<and>
   cell_after_load (loadTasks (Resolved (Some cut_short))) (tasks_cell one_task) = tasks_cell one_task \<and>
   cell_after_load (loadTasks (Resolved (Some cut_short))) (tasks_cell initial_state) = JArray []"
proof -
  have 1: "JSON_parse cut_short = None" unfolding cut_short_def by code_simp
  have 2: "cut_short \<noteq> []" by (simp add: cut_short_def js_def)
  from load_unparsable_leaves_empty [of cut_short "tasks_cell one_task"] 1 2
  show ?thesis by blast
qed

text \<open>
  C2 as stated fails: the stored text \<^verbatim>\<open>[{"id":1}]\<close> is a JSON text that is not a task list
  (the id is a number, text and completed are missing), and \<^verbatim>\<open>loadTasks\<close> installs it: the
  cell, empty at startup, holds a one-element array after loading.
\<close>

theorem load_installs_wrong_shape:
  "loadTasks (Resolved (Some wrong_shape)) = SetTasks (JArray [JObject [(js ''id'', JNumber (js ''1''))]]) \<and>
   cell_after_load (loadTasks (Resolved (Some wrong_shape))) (tasks_cell initial_state) =
     JArray [JObject [(js ''id'', JNumber (js ''1''))]] \<and>
   tasks_of_json (JArray [JObject [(js ''id'', JNumber (js ''1''))]]) = None"
proof -
  have 1: "JSON_parse wrong_shape = Some (JArray [JObject [(js ''id'', JNumber (js ''1''))]])"
    unfolding wrong_shape_def by code_simp
  have 2: "wrong_shape \<noteq> []" by (simp add: wrong_shape_def js_def)
  have 3: "tasks_of_json (JArray [JObject [(js ''id'', JNumber (js ''1''))]]) = None"
    by code_simp
  from 1 2 3 show ?thesis by (simp add: loadTasks_def cell_after_load_def)
qed

end
